theory Spec2Isabelle
  imports Main "HOL-Library.Multiset"
begin

section \<open>Python objects: references, the class heap, errors\<close>

text \<open>
  Objects are identified by reference. The heap is a list of objects, a reference is an
  index into it, and creating an object appends it, so a new object never has the
  identity of an existing one. A reference outside the heap names no object and has no
  attribute.
\<close>

type_synonym ref = nat

text \<open>A cassette (the session) is known by its identity only.\<close>

type_synonym session = nat

datatype error = AttributeError | TypeError | KeyError | ClosedPoolError

text \<open>
  The value of an object's \<open>cassette\<close> attribute: missing, \<open>None\<close>, or some object
  other than \<open>None\<close>: a cassette, known by its identity, or any other object
  (a \<open>mock.Mock\<close> answers every attribute with a new child mock).
\<close>

datatype attr = Absent | PyNone | Bound session | OtherObject

record pyobj =
  is_class :: bool
  obj_name :: string
  obj_bases :: "ref list"
  obj_cassette :: attr

type_synonym heap = "pyobj list"

definition cassette_attr :: "heap \<Rightarrow> ref \<Rightarrow> attr" where
  "cassette_attr h r = (if r < length h then obj_cassette (h ! r) else Absent)"

definition class_at :: "heap \<Rightarrow> ref \<Rightarrow> bool" where
  "class_at h r = (r < length h \<and> is_class (h ! r))"

definition alloc :: "heap \<Rightarrow> pyobj \<Rightarrow> ref \<times> heap" where
  "alloc h obj = (length h, h @ [obj])"

section \<open>Values, patch targets, cassettes\<close>

text \<open>
  A replacement value is an object on the heap (a class, a mock), a dict of replacement
  values, a function made for one session (the closures of the builder and the wrappers
  the stub factories return, named here by the expression that makes them; they have no
  \<open>cassette\<close> attribute) or one of the library originals saved when the module was
  loaded (\<open>_HTTPConnection\<close> and the like, named by the variable that holds them).
\<close>

datatype pyval =
    Ref ref
  | DictV "(string \<times> pyval) list"
  | Func string session
  | Saved string

text \<open>The modules and classes whose attributes the adapters patch.\<close>

datatype target =
    httplib
  | urllib3_connection
  | urllib3_connectionpool
  | HTTPConnectionPool
  | HTTPSConnectionPool
  | AWSHTTPConnectionPool
  | AWSHTTPSConnectionPool
  | botocore_awsrequest
  | httplib2
  | boto_https_connection
  | SimpleAsyncHTTPClient
  | CurlAsyncHTTPClient
  | aiohttp_ClientSession
  | httpx_AsyncClient
  | httpx_Client
  | OtherTarget ref

type_synonym mock_triple = "target \<times> string \<times> pyval"

record cassette_obj =
  cassette_id :: session
  cassette_path :: string
  custom_patches :: "mock_triple list"

text \<open>What \<open>mock.patch.object(obj, attribute, new)\<close> is built from.\<close>

record patcher =
  p_target :: target
  p_attribute :: string
  p_new :: pyval

section \<open>CassettePatcherBuilder: the substitute type cache\<close>

record builder =
  b_cassette :: cassette_obj
  class_to_cassette_subclass :: "ref \<rightharpoonup> ref"

definition builder_init :: "cassette_obj \<Rightarrow> builder" where
  "builder_init cassette = \<lparr>b_cassette = cassette, class_to_cassette_subclass = Map.empty\<rparr>"

text \<open>
  \<open>_build_cassette_subclass\<close>: \<open>issubclass(base_class, object)\<close> raises TypeError when
  \<open>base_class\<close> is not a class and is true for every class, so \<open>bases\<close> stays
  \<open>(base_class,)\<close>. \<open>type(name, bases, dict(cassette=self._cassette))\<close> is a new class.
\<close>

definition build_cassette_subclass :: "builder \<Rightarrow> heap \<Rightarrow> ref \<Rightarrow> error + (ref \<times> heap)" where
  "build_cassette_subclass b h base_class =
     (if \<not> class_at h base_class then Inl TypeError
      else Inr (alloc h \<lparr>is_class = True,
                          obj_name = obj_name (h ! base_class) @ cassette_path (b_cassette b),
                          obj_bases = [base_class],
                          obj_cassette = Bound (cassette_id (b_cassette b))\<rparr>))"

text \<open>
  \<open>_get_cassette_subclass\<close>: reading \<open>klass.cassette\<close> raises AttributeError when the
  attribute is missing; any value other than \<open>None\<close> returns \<open>klass\<close> itself; otherwise
  the cache is consulted and filled on a miss.
\<close>

definition get_cassette_subclass :: "builder \<Rightarrow> heap \<Rightarrow> ref \<Rightarrow> error + (ref \<times> builder \<times> heap)" where
  "get_cassette_subclass b h klass =
     (case cassette_attr h klass of
        Absent \<Rightarrow> Inl AttributeError
      | PyNone \<Rightarrow>
          (case class_to_cassette_subclass b klass of
             Some subclass \<Rightarrow> Inr (subclass, b, h)
           | None \<Rightarrow>
               (case build_cassette_subclass b h klass of
                  Inl e \<Rightarrow> Inl e
                | Inr (subclass, h') \<Rightarrow>
                    Inr (subclass,
                         b\<lparr>class_to_cassette_subclass := (class_to_cassette_subclass b)(klass \<mapsto> subclass)\<rparr>,
                         h')))
      | _ \<Rightarrow> Inr (klass, b, h))"

text \<open>
  Calls of \<open>_get_cassette_subclass\<close> one after the other on the same builder, whatever
  they return; a call that raises has changed nothing.
\<close>

fun get_cassette_subclass_calls :: "builder \<Rightarrow> heap \<Rightarrow> ref list \<Rightarrow> builder \<times> heap" where
  "get_cassette_subclass_calls b h [] = (b, h)"
| "get_cassette_subclass_calls b h (klass # rest) =
     (case get_cassette_subclass b h klass of
        Inl e \<Rightarrow> get_cassette_subclass_calls b h rest
      | Inr (r, b', h') \<Rightarrow> get_cassette_subclass_calls b' h' rest)"

text \<open>
  The cache of a builder only ever holds classes it has built itself: each is bound to
  the builder's own cassette.
\<close>

definition cache_ok :: "builder \<Rightarrow> heap \<Rightarrow> bool" where
  "cache_ok b h = (\<forall>k s. class_to_cassette_subclass b k = Some s \<longrightarrow>
       cassette_attr h s = Bound (cassette_id (b_cassette b)))"

text \<open>
  \<open>_recursively_apply_get_cassette_subclass\<close>: a dict is rewritten value by value, in
  the order of its items; any other value with a \<open>cassette\<close> attribute goes through
  \<open>_get_cassette_subclass\<close>; everything else is returned as it is.
\<close>

fun recursively_apply_get_cassette_subclass ::
      "builder \<Rightarrow> heap \<Rightarrow> pyval \<Rightarrow> error + (pyval \<times> builder \<times> heap)"
  and recursively_apply_items ::
      "builder \<Rightarrow> heap \<Rightarrow> (string \<times> pyval) list \<Rightarrow> error + ((string \<times> pyval) list \<times> builder \<times> heap)"
where
  "recursively_apply_get_cassette_subclass b h (DictV items) =
     (case recursively_apply_items b h items of
        Inl e \<Rightarrow> Inl e
      | Inr (items', b', h') \<Rightarrow> Inr (DictV items', b', h'))"
| "recursively_apply_get_cassette_subclass b h (Ref r) =
     (if cassette_attr h r \<noteq> Absent
      then (case get_cassette_subclass b h r of
              Inl e \<Rightarrow> Inl e
            | Inr (r', b', h') \<Rightarrow> Inr (Ref r', b', h'))
      else Inr (Ref r, b, h))"
| "recursively_apply_get_cassette_subclass b h (Func f c) = Inr (Func f c, b, h)"
| "recursively_apply_get_cassette_subclass b h (Saved v) = Inr (Saved v, b, h)"
| "recursively_apply_items b h [] = Inr ([], b, h)"
| "recursively_apply_items b h ((key, replacement_obj) # rest) =
     (case recursively_apply_get_cassette_subclass b h replacement_obj of
        Inl e \<Rightarrow> Inl e
      | Inr (replacement_obj', b', h') \<Rightarrow>
          (case recursively_apply_items b' h' rest of
             Inl e \<Rightarrow> Inl e
           | Inr (rest', b'', h'') \<Rightarrow> Inr ((key, replacement_obj') # rest', b'', h'')))"

text \<open>
  A replacement is well formed when every value in it whose \<open>cassette\<close> attribute is
  \<open>None\<close> is a class: these are the values a subclass is built from.
\<close>

fun class_values :: "heap \<Rightarrow> pyval \<Rightarrow> bool" where
  "class_values h (Ref r) = (cassette_attr h r = PyNone \<longrightarrow> class_at h r)"
| "class_values h (DictV items) = (\<forall>x \<in> set items. class_values h (snd x))"
| "class_values h (Func f c) = True"
| "class_values h (Saved v) = True"

text \<open>
  \<open>_build_patcher\<close> returns \<open>None\<close> when the target lacks the attribute, before anything
  else is evaluated. \<open>hasattr\<close> is the environment's: which attribute each target has.
\<close>

definition build_patcher ::
  "(target \<Rightarrow> string \<Rightarrow> bool) \<Rightarrow> builder \<Rightarrow> heap \<Rightarrow> mock_triple
     \<Rightarrow> error + (patcher option \<times> builder \<times> heap)" where
  "build_patcher hasattr b h triple =
     (case triple of (obj, patched_attribute, replacement_class) \<Rightarrow>
        if \<not> hasattr obj patched_attribute then Inr (None, b, h)
        else (case recursively_apply_get_cassette_subclass b h replacement_class of
                Inl e \<Rightarrow> Inl e
              | Inr (new, b', h') \<Rightarrow>
                  Inr (Some \<lparr>p_target = obj, p_attribute = patched_attribute, p_new = new\<rparr>, b', h')))"

text \<open>
  \<open>_build_patchers_from_mock_triples\<close>: the patchers the generator yields, in order; a
  \<open>None\<close> from \<open>_build_patcher\<close> is skipped (a patcher object is always true).
\<close>

fun build_patchers_from_mock_triples ::
  "(target \<Rightarrow> string \<Rightarrow> bool) \<Rightarrow> builder \<Rightarrow> heap \<Rightarrow> mock_triple list
     \<Rightarrow> error + (patcher list \<times> builder \<times> heap)" where
  "build_patchers_from_mock_triples hasattr b h [] = Inr ([], b, h)"
| "build_patchers_from_mock_triples hasattr b h (args # mock_triples) =
     (case build_patcher hasattr b h args of
        Inl e \<Rightarrow> Inl e
      | Inr (patcher, b', h') \<Rightarrow>
          (case build_patchers_from_mock_triples hasattr b' h' mock_triples of
             Inl e \<Rightarrow> Inl e
           | Inr (patchers, b'', h'') \<Rightarrow>
               Inr ((case patcher of None \<Rightarrow> patchers | Some p \<Rightarrow> p # patchers), b'', h'')))"

section \<open>Connection pools and ConnectionRemover\<close>

text \<open>
  A pool object, as far as this module reads it: \<open>pool.pool\<close> is the queue of idle
  entries (\<open>None\<close> once the pool is closed), listed in the order \<open>get()\<close> hands them
  out; \<open>lifo\<close> says where \<open>put\<close> inserts (urllib3 uses a LifoQueue); \<open>ConnectionCls\<close>
  is the attribute of that name, if the pool has it. \<open>isinstance\<close> is Python's, taken
  as a parameter: an object, a class.
\<close>

record pool_obj =
  pool :: "ref list option"
  lifo :: bool
  ConnectionCls :: "ref option"

text \<open>
  Modelled from the spec: urllib3's \<open>_put_conn\<close> is not part of this module. It requeues
  the entry; on a closed pool there is no queue to put it in.
\<close>

definition put_conn :: "pool_obj \<Rightarrow> ref \<Rightarrow> pool_obj" where
  "put_conn p connection =
     (case pool p of
        None \<Rightarrow> p
      | Some queue \<Rightarrow> p\<lparr>pool := Some (if lifo p then connection # queue else queue @ [connection])\<rparr>)"

text \<open>
  Modelled from the spec: urllib3's \<open>_get_conn\<close>, the pool's own acquire primitive. It
  takes the next idle entry; once the queue is drained the pool's creation primitive
  \<open>_new_conn\<close> is called.
\<close>

definition get_conn :: "(pool_obj \<Rightarrow> ref) \<Rightarrow> pool_obj \<Rightarrow> error + (ref \<times> pool_obj)" where
  "get_conn new_conn p =
     (case pool p of
        None \<Rightarrow> Inl ClosedPoolError
      | Some [] \<Rightarrow> Inr (new_conn p, p)
      | Some (connection # queue) \<Rightarrow> Inr (connection, p\<lparr>pool := Some queue\<rparr>))"

text \<open>
  \<open>patched_get_conn\<close>, the closure \<open>_patched_get_conn\<close> returns. The loop may not end, so
  it is a partial function: \<open>None\<close> is the loop that runs forever. The last component
  counts the calls of the pool's original \<open>get_conn\<close>.
\<close>

partial_function (option) patched_get_conn_loop ::
  "(pool_obj \<Rightarrow> error + (ref \<times> pool_obj)) \<Rightarrow> (ref \<Rightarrow> bool) \<Rightarrow> ref \<Rightarrow> pool_obj \<Rightarrow> nat
     \<Rightarrow> (error + (ref \<times> pool_obj \<times> nat)) option" where
  "patched_get_conn_loop get_conn_orig is_instance connection p calls =
     (if \<not> is_instance connection
      then (case get_conn_orig p of
              Inl e \<Rightarrow> Some (Inl e)
            | Inr (connection', p') \<Rightarrow>
                patched_get_conn_loop get_conn_orig is_instance connection' p' (Suc calls))
      else Some (Inr (connection, p, calls)))"

definition patched_get_conn ::
  "(pool_obj \<Rightarrow> error + (ref \<times> pool_obj)) \<Rightarrow> (ref \<Rightarrow> ref \<Rightarrow> bool) \<Rightarrow> ref \<Rightarrow> pool_obj
     \<Rightarrow> (error + (ref \<times> pool_obj \<times> nat)) option" where
  "patched_get_conn get_conn_orig isinstance connection_class_getter p =
     (case get_conn_orig p of
        Inl e \<Rightarrow> Some (Inl e)
      | Inr (connection, p') \<Rightarrow>
          (let connection_class =
                 (case ConnectionCls p' of Some c \<Rightarrow> c | None \<Rightarrow> connection_class_getter)
           in patched_get_conn_loop get_conn_orig (\<lambda>c. isinstance c connection_class)
                connection p' 1))"

text \<open>
  ConnectionRemover. The dict \<open>_connection_pool_to_connections\<close> keeps its keys in the
  order they were first set, so it is a list of pairs: a pool, the set of connections
  tracked for it.
\<close>

record connection_remover =
  connection_class :: ref
  connection_pool_to_connections :: "(ref \<times> ref set) list"

definition connection_remover_init :: "ref \<Rightarrow> connection_remover" where
  "connection_remover_init cls =
     \<lparr>connection_class = cls, connection_pool_to_connections = []\<rparr>"

text \<open>\<open>d.setdefault(pool, set()).add(connection)\<close>\<close>

fun setdefault_add :: "ref \<Rightarrow> ref \<Rightarrow> (ref \<times> ref set) list \<Rightarrow> (ref \<times> ref set) list" where
  "setdefault_add key connection [] = [(key, {connection})]"
| "setdefault_add key connection ((k, connections) # rest) =
     (if k = key then (k, insert connection connections) # rest
      else (k, connections) # setdefault_add key connection rest)"

definition add_connection_to_pool_entry ::
  "(ref \<Rightarrow> ref \<Rightarrow> bool) \<Rightarrow> connection_remover \<Rightarrow> ref \<Rightarrow> ref \<Rightarrow> connection_remover" where
  "add_connection_to_pool_entry isinstance r p connection =
     (if isinstance connection (connection_class r)
      then r\<lparr>connection_pool_to_connections :=
               setdefault_add p connection (connection_pool_to_connections r)\<rparr>
      else r)"

text \<open>
  \<open>d[key].remove(connection)\<close>: KeyError when the key is not in the dict, and when the
  connection is not in the set.
\<close>

fun getitem_remove ::
  "ref \<Rightarrow> ref \<Rightarrow> (ref \<times> ref set) list \<Rightarrow> error + (ref \<times> ref set) list" where
  "getitem_remove key connection [] = Inl KeyError"
| "getitem_remove key connection ((k, connections) # rest) =
     (if k = key
      then (if connection \<in> connections then Inr ((k, connections - {connection}) # rest)
            else Inl KeyError)
      else (case getitem_remove key connection rest of
              Inl e \<Rightarrow> Inl e
            | Inr rest' \<Rightarrow> Inr ((k, connections) # rest')))"

text \<open>
  \<open>remove_connection_to_pool_entry\<close> looks the dict up under the connection class, not
  under the pool it is given.
\<close>

definition remove_connection_to_pool_entry ::
  "(ref \<Rightarrow> ref \<Rightarrow> bool) \<Rightarrow> connection_remover \<Rightarrow> ref \<Rightarrow> ref \<Rightarrow> error + connection_remover" where
  "remove_connection_to_pool_entry isinstance r p connection =
     (if isinstance connection (connection_class r)
      then (case getitem_remove (connection_class r) connection (connection_pool_to_connections r) of
              Inl e \<Rightarrow> Inl e
            | Inr d \<Rightarrow> Inr (r\<lparr>connection_pool_to_connections := d\<rparr>))
      else Inr r)"

definition connection_remover_enter :: "connection_remover \<Rightarrow> connection_remover" where
  "connection_remover_enter r = r"

text \<open>
  The \<open>while\<close> loop of \<open>__exit__\<close> on an open queue: the error if \<open>connections.remove\<close>
  raised, what is left of the queue, what is left of the tracked set, and
  \<open>readd_connections\<close>. Each round takes one entry off the queue.
\<close>

fun drain ::
  "(ref \<Rightarrow> bool) \<Rightarrow> ref list \<Rightarrow> ref set \<Rightarrow> ref list
     \<Rightarrow> error option \<times> ref list \<times> ref set \<times> ref list" where
  "drain is_instance [] connections readd_connections =
     (None, [], connections, readd_connections)"
| "drain is_instance (connection # queue) connections readd_connections =
     (if connections = {} then (None, connection # queue, connections, readd_connections)
      else if is_instance connection
      then (if connection \<in> connections
            then drain is_instance queue (connections - {connection}) readd_connections
            else (Some KeyError, queue, connections, readd_connections))
      else drain is_instance queue connections (readd_connections @ [connection]))"

text \<open>
  The body of the \<open>for\<close> loop of \<open>__exit__\<close> for one pool: the drain, then the set-aside
  entries go back through \<open>_put_conn\<close> in the order of \<open>readd_connections\<close>. When the
  drain raises, nothing is put back.
\<close>

definition exit_pool ::
  "(ref \<Rightarrow> bool) \<Rightarrow> pool_obj \<Rightarrow> ref set \<Rightarrow> error option \<times> pool_obj \<times> ref set" where
  "exit_pool is_instance p connections =
     (case pool p of
        None \<Rightarrow> (None, p, connections)
      | Some queue \<Rightarrow>
          (case drain is_instance queue connections [] of
             (Some e, queue', connections', readd_connections) \<Rightarrow>
               (Some e, p\<lparr>pool := Some queue'\<rparr>, connections')
           | (None, queue', connections', readd_connections) \<Rightarrow>
               (None, foldl put_conn (p\<lparr>pool := Some queue'\<rparr>) readd_connections, connections')))"

text \<open>
  \<open>__exit__\<close>: the pools are objects in a store, visited in the order of the dict's items;
  an error ends the walk where it is raised.
\<close>

fun exit_items ::
  "(ref \<Rightarrow> bool) \<Rightarrow> (ref \<times> ref set) list \<Rightarrow> (ref \<Rightarrow> pool_obj)
     \<Rightarrow> error option \<times> (ref \<times> ref set) list \<times> (ref \<Rightarrow> pool_obj)" where
  "exit_items is_instance [] pools = (None, [], pools)"
| "exit_items is_instance ((p, connections) # rest) pools =
     (case exit_pool is_instance (pools p) connections of
        (Some e, p', connections') \<Rightarrow> (Some e, (p, connections') # rest, pools(p := p'))
      | (None, p', connections') \<Rightarrow>
          (case exit_items is_instance rest (pools(p := p')) of
             (e, rest', pools') \<Rightarrow> (e, (p, connections') # rest', pools')))"

definition connection_remover_exit ::
  "(ref \<Rightarrow> ref \<Rightarrow> bool) \<Rightarrow> connection_remover \<Rightarrow> (ref \<Rightarrow> pool_obj)
     \<Rightarrow> error option \<times> connection_remover \<times> (ref \<Rightarrow> pool_obj)" where
  "connection_remover_exit isinstance r pools =
     (case exit_items (\<lambda>c. isinstance c (connection_class r))
             (connection_pool_to_connections r) pools of
        (e, d, pools') \<Rightarrow> (e, r\<lparr>connection_pool_to_connections := d\<rparr>, pools'))"

text \<open>
  What the tracker is meant to hold: for every pool, only instances of the remover's
  connection class.
\<close>

definition tracked_ok :: "(ref \<Rightarrow> ref \<Rightarrow> bool) \<Rightarrow> connection_remover \<Rightarrow> bool" where
  "tracked_ok isinstance r =
     (\<forall>entry \<in> set (connection_pool_to_connections r).
        \<forall>c \<in> snd entry. isinstance c (connection_class r))"

text \<open>
  An open pool is covered by its tracked set when every instance of the connection class
  idle in the pool is tracked, and is there once: then \<open>connections.remove\<close> finds each
  one it is asked for.
\<close>

definition covered :: "(ref \<Rightarrow> bool) \<Rightarrow> pool_obj \<Rightarrow> ref set \<Rightarrow> bool" where
  "covered is_instance p connections =
     (case pool p of
        None \<Rightarrow> True
      | Some queue \<Rightarrow> distinct (filter is_instance queue) \<and>
                     set (filter is_instance queue) \<subseteq> connections)"

section \<open>CassettePatcherBuilder: the adapters and build\<close>

text \<open>
  The environment a builder runs in: which attribute each target has, which imports
  succeed, and where on the heap each stub class of \<open>vcr.stubs\<close> lives.
\<close>

datatype stub =
    VCRHTTPConnection
  | VCRHTTPSConnection
  | requests_VCRRequestsHTTPConnection
  | requests_VCRRequestsHTTPSConnection
  | boto3_VCRRequestsHTTPConnection
  | boto3_VCRRequestsHTTPSConnection
  | urllib3_VCRRequestsHTTPConnection
  | urllib3_VCRRequestsHTTPSConnection
  | VCRHTTPConnectionWithTimeout
  | VCRHTTPSConnectionWithTimeout
  | VCRCertValidatingHTTPSConnection

record env =
  hasattr :: "target \<Rightarrow> string \<Rightarrow> bool"
  stub_class :: "stub \<Rightarrow> ref"
  import_requests_stubs :: bool
  import_urllib3 :: bool
  import_botocore_awsrequest :: bool
  import_httplib2 :: bool
  import_boto_https_connection :: bool
  import_tornado_simple_httpclient :: bool
  import_tornado_curl_httpclient :: bool
  import_aiohttp_client :: bool
  import_httpx :: bool

text \<open>What \<open>build\<close> yields: patchers, and the two ConnectionRemovers of each pool-aware adapter.\<close>

datatype resource = Patcher patcher | Remover connection_remover

text \<open>The generator adapters: the triples each one yields, in order.\<close>

definition httplib_adapter :: "env \<Rightarrow> mock_triple list" where
  "httplib_adapter e =
     [(httplib, ''HTTPConnection'', Ref (stub_class e VCRHTTPConnection)),
      (httplib, ''HTTPSConnection'', Ref (stub_class e VCRHTTPSConnection))]"

definition boto3_adapter :: "env \<Rightarrow> mock_triple list" where
  "boto3_adapter e =
     (if \<not> import_botocore_awsrequest e then []
      else [(AWSHTTPConnectionPool, ''ConnectionCls'', Ref (stub_class e boto3_VCRRequestsHTTPConnection)),
            (AWSHTTPSConnectionPool, ''ConnectionCls'', Ref (stub_class e boto3_VCRRequestsHTTPSConnection))])"

definition httplib2_adapter :: "env \<Rightarrow> mock_triple list" where
  "httplib2_adapter e =
     (if \<not> import_httplib2 e then []
      else [(httplib2, ''HTTPConnectionWithTimeout'', Ref (stub_class e VCRHTTPConnectionWithTimeout)),
            (httplib2, ''HTTPSConnectionWithTimeout'', Ref (stub_class e VCRHTTPSConnectionWithTimeout)),
            (httplib2, ''SCHEME_TO_CONNECTION'',
               DictV [(''http'', Ref (stub_class e VCRHTTPConnectionWithTimeout)),
                      (''https'', Ref (stub_class e VCRHTTPSConnectionWithTimeout))])])"

definition boto_adapter :: "env \<Rightarrow> mock_triple list" where
  "boto_adapter e =
     (if \<not> import_boto_https_connection e then []
      else [(boto_https_connection, ''CertValidatingHTTPSConnection'',
               Ref (stub_class e VCRCertValidatingHTTPSConnection))])"

definition tornado_adapter :: "env \<Rightarrow> session \<Rightarrow> mock_triple list" where
  "tornado_adapter e cassette =
     (if \<not> import_tornado_simple_httpclient e then []
      else [(SimpleAsyncHTTPClient, ''fetch_impl'',
               Func ''vcr_fetch_impl(cassette, _SimpleAsyncHTTPClient_fetch_impl)'' cassette)]) @
     (if \<not> import_tornado_curl_httpclient e then []
      else [(CurlAsyncHTTPClient, ''fetch_impl'',
               Func ''vcr_fetch_impl(cassette, _CurlAsyncHTTPClient_fetch_impl)'' cassette)])"

definition aiohttp_adapter :: "env \<Rightarrow> session \<Rightarrow> mock_triple list" where
  "aiohttp_adapter e cassette =
     (if \<not> import_aiohttp_client e then []
      else [(aiohttp_ClientSession, ''_request'',
               Func ''vcr_request(cassette, _AiohttpClientSessionRequest)'' cassette)])"

definition httpx_adapter :: "env \<Rightarrow> session \<Rightarrow> mock_triple list" where
  "httpx_adapter e cassette =
     (if \<not> import_httpx e then []
      else [(httpx_AsyncClient, ''send'',
               Func ''async_vcr_send(cassette, _HttpxAsyncClient_send)'' cassette),
            (httpx_Client, ''send'',
               Func ''sync_vcr_send(cassette, _HttpxSyncClient_send)'' cassette)])"

text \<open>\<open>mock.Mock(return_value=False)\<close>: not a class; it has every attribute.\<close>

definition mock_obj :: pyobj where
  "mock_obj = \<lparr>is_class = False, obj_name = ''Mock'', obj_bases = [], obj_cassette = OtherObject\<rparr>"

text \<open>
  \<open>_urllib3_patchers\<close> runs when it is called: it makes the two removers (two calls of
  \<open>_get_cassette_subclass\<close>), then the tuple of triples. \<open>cpool\<close> is \<open>None\<close> when urllib3
  was not importable, and reading \<open>cpool.HTTPConnectionPool\<close> then raises;
  \<open>_patched_get_conn\<close> and \<open>_patched_new_conn\<close> read the pool classes' \<open>_get_conn\<close> and
  \<open>_new_conn\<close>. The triples are turned into patchers only later, when the chain is
  consumed.
\<close>

definition urllib3_patchers ::
  "env \<Rightarrow> bool \<Rightarrow> builder \<Rightarrow> heap \<Rightarrow> ref \<Rightarrow> ref
     \<Rightarrow> error + (mock_triple list \<times> connection_remover list \<times> builder \<times> heap)" where
  "urllib3_patchers e have_cpool b h stubs_VCRRequestsHTTPConnection stubs_VCRRequestsHTTPSConnection =
     (case get_cassette_subclass b h stubs_VCRRequestsHTTPConnection of
        Inl err \<Rightarrow> Inl err
      | Inr (http_class, b1, h1) \<Rightarrow>
     (case get_cassette_subclass b1 h1 stubs_VCRRequestsHTTPSConnection of
        Inl err \<Rightarrow> Inl err
      | Inr (https_class, b2, h2) \<Rightarrow>
     (case alloc h2 mock_obj of (is_connection_dropped, h3) \<Rightarrow>
        if \<not> have_cpool
           \<or> \<not> hasattr e HTTPConnectionPool ''_get_conn''
           \<or> \<not> hasattr e HTTPSConnectionPool ''_get_conn''
           \<or> \<not> hasattr e HTTPConnectionPool ''_new_conn''
           \<or> \<not> hasattr e HTTPSConnectionPool ''_new_conn''
        then Inl AttributeError
        else Inr
          ([(urllib3_connection, ''VerifiedHTTPSConnection'', Ref stubs_VCRRequestsHTTPSConnection),
            (urllib3_connection, ''HTTPConnection'', Ref stubs_VCRRequestsHTTPConnection),
            (urllib3_connection, ''HTTPSConnection'', Ref stubs_VCRRequestsHTTPSConnection),
            (urllib3_connectionpool, ''is_connection_dropped'', Ref is_connection_dropped),
            (HTTPConnectionPool, ''ConnectionCls'', Ref stubs_VCRRequestsHTTPConnection),
            (HTTPSConnectionPool, ''ConnectionCls'', Ref stubs_VCRRequestsHTTPSConnection),
            (HTTPConnectionPool, ''_get_conn'',
               Func ''patched_get_conn(HTTPConnectionPool)'' (cassette_id (b_cassette b))),
            (HTTPSConnectionPool, ''_get_conn'',
               Func ''patched_get_conn(HTTPSConnectionPool)'' (cassette_id (b_cassette b))),
            (HTTPConnectionPool, ''_new_conn'',
               Func ''patched_new_conn(HTTPConnectionPool)'' (cassette_id (b_cassette b))),
            (HTTPSConnectionPool, ''_new_conn'',
               Func ''patched_new_conn(HTTPSConnectionPool)'' (cassette_id (b_cassette b)))],
           [connection_remover_init http_class, connection_remover_init https_class],
           b2, h3))))"

definition requests_adapter ::
  "env \<Rightarrow> builder \<Rightarrow> heap
     \<Rightarrow> error + (mock_triple list \<times> connection_remover list \<times> builder \<times> heap)" where
  "requests_adapter e b h =
     (if \<not> import_requests_stubs e then Inr ([], [], b, h)
      else urllib3_patchers e (import_urllib3 e) b h
             (stub_class e requests_VCRRequestsHTTPConnection)
             (stub_class e requests_VCRRequestsHTTPSConnection))"

definition urllib3_adapter ::
  "env \<Rightarrow> builder \<Rightarrow> heap
     \<Rightarrow> error + (mock_triple list \<times> connection_remover list \<times> builder \<times> heap)" where
  "urllib3_adapter e b h =
     (if \<not> import_urllib3 e then Inr ([], [], b, h)
      else urllib3_patchers e True b h
             (stub_class e urllib3_VCRRequestsHTTPConnection)
             (stub_class e urllib3_VCRRequestsHTTPSConnection))"

text \<open>
  One link of the chain: the patchers of a list of triples, then the resources that
  follow them, appended to what has been yielded so far.
\<close>

definition chain_link ::
  "env \<Rightarrow> mock_triple list \<Rightarrow> resource list
     \<Rightarrow> error + (resource list \<times> builder \<times> heap) \<Rightarrow> error + (resource list \<times> builder \<times> heap)" where
  "chain_link e mock_triples tail so_far =
     (case so_far of
        Inl err \<Rightarrow> Inl err
      | Inr (yielded, b, h) \<Rightarrow>
          (case build_patchers_from_mock_triples (hasattr e) b h mock_triples of
             Inl err \<Rightarrow> Inl err
           | Inr (patchers, b', h') \<Rightarrow> Inr (yielded @ map Patcher patchers @ tail, b', h')))"

text \<open>
  \<open>build\<close>: the arguments of \<open>itertools.chain\<close> are evaluated first, which runs
  \<open>_requests()\<close> and \<open>_urllib3()\<close> (the other adapters are generators, and nothing of
  them runs yet); then the chain is consumed from left to right. The links below are
  nested, so the innermost one (httplib) is the first to yield and the outermost one
  (the custom triples) the last.
\<close>

definition build :: "env \<Rightarrow> builder \<Rightarrow> heap \<Rightarrow> error + (resource list \<times> builder \<times> heap)" where
  "build e b h =
     (case requests_adapter e b h of
        Inl err \<Rightarrow> Inl err
      | Inr (requests_triples, requests_removers, b1, h1) \<Rightarrow>
     (case urllib3_adapter e b1 h1 of
        Inl err \<Rightarrow> Inl err
      | Inr (urllib3_triples, urllib3_removers, b2, h2) \<Rightarrow>
          chain_link e (custom_patches (b_cassette b)) []
         (chain_link e (httpx_adapter e (cassette_id (b_cassette b))) []
         (chain_link e (aiohttp_adapter e (cassette_id (b_cassette b))) []
         (chain_link e (tornado_adapter e (cassette_id (b_cassette b))) []
         (chain_link e (boto_adapter e) []
         (chain_link e (httplib2_adapter e) []
         (chain_link e urllib3_triples (map Remover urllib3_removers)
         (chain_link e (boto3_adapter e) []
         (chain_link e requests_triples (map Remover requests_removers)
         (chain_link e (httplib_adapter e) []
         (Inr ([], b2, h2)))))))))))))"

text \<open>
  The seam a triple, a patcher or a yielded resource is about (a remover is about none),
  and the seams of a list that exist in the environment.
\<close>

definition triple_seam :: "mock_triple \<Rightarrow> target \<times> string" where
  "triple_seam t = (fst t, fst (snd t))"

definition seam_of :: "patcher \<Rightarrow> target \<times> string" where
  "seam_of p = (p_target p, p_attribute p)"

fun resource_seam :: "resource \<Rightarrow> (target \<times> string) option" where
  "resource_seam (Patcher p) = Some (seam_of p)"
| "resource_seam (Remover r) = None"

definition present_seams :: "(target \<Rightarrow> string \<Rightarrow> bool) \<Rightarrow> (target \<times> string) list \<Rightarrow> (target \<times> string) list" where
  "present_seams has seams = filter (\<lambda>s. has (fst s) (snd s)) seams"

text \<open>
  The order of the built-in part of the chain, as seams: the adapters in the order of
  \<open>build\<close>, each pool-aware adapter followed by its two removers.
\<close>

definition urllib3_patchers_seams :: "(target \<times> string) list" where
  "urllib3_patchers_seams =
     [(urllib3_connection, ''VerifiedHTTPSConnection''),
      (urllib3_connection, ''HTTPConnection''),
      (urllib3_connection, ''HTTPSConnection''),
      (urllib3_connectionpool, ''is_connection_dropped''),
      (HTTPConnectionPool, ''ConnectionCls''),
      (HTTPSConnectionPool, ''ConnectionCls''),
      (HTTPConnectionPool, ''_get_conn''),
      (HTTPSConnectionPool, ''_get_conn''),
      (HTTPConnectionPool, ''_new_conn''),
      (HTTPSConnectionPool, ''_new_conn'')]"

definition builtin_seams :: "env \<Rightarrow> session \<Rightarrow> (target \<times> string) option list" where
  "builtin_seams e cassette =
     map Some (present_seams (hasattr e) (map triple_seam (httplib_adapter e))) @
     (if import_requests_stubs e
      then map Some (present_seams (hasattr e) urllib3_patchers_seams) @ [None, None] else []) @
     map Some (present_seams (hasattr e) (map triple_seam (boto3_adapter e))) @
     (if import_urllib3 e
      then map Some (present_seams (hasattr e) urllib3_patchers_seams) @ [None, None] else []) @
     map Some (present_seams (hasattr e) (map triple_seam (httplib2_adapter e))) @
     map Some (present_seams (hasattr e) (map triple_seam (boto_adapter e))) @
     map Some (present_seams (hasattr e) (map triple_seam (tornado_adapter e cassette))) @
     map Some (present_seams (hasattr e) (map triple_seam (aiohttp_adapter e cassette))) @
     map Some (present_seams (hasattr e) (map triple_seam (httpx_adapter e cassette)))"

text \<open>The heap only grows, and by objects whose \<open>cassette\<close> is not \<open>None\<close>.\<close>

definition grows :: "heap \<Rightarrow> heap \<Rightarrow> bool" where
  "grows h h' = (\<exists>ext. h' = h @ ext \<and> (\<forall>obj \<in> set ext. obj_cassette obj \<noteq> PyNone))"

section \<open>Patch handles, sessions, force\_reset\<close>

text \<open>
  A seam is an attribute of a target; the state of the seams is the value each one holds.
\<close>

type_synonym seam = "target \<times> string"

type_synonym seams = "seam \<Rightarrow> pyval"

text \<open>An entered patcher: its seam and the value the seam held when it was entered.\<close>

record handle =
  h_seam :: seam
  h_original :: pyval

text \<open>
  Modelled from the spec: entering and exiting the object \<open>mock.patch.object\<close> returns
  (\<open>unittest.mock\<close> is not part of this module). Entering captures the current value of
  the attribute and installs the replacement; exiting puts the captured value back,
  whatever the attribute holds by then.
\<close>

definition enter_patcher :: "patcher \<Rightarrow> seams \<Rightarrow> handle \<times> seams" where
  "enter_patcher p s =
     (\<lparr>h_seam = seam_of p, h_original = s (seam_of p)\<rparr>, s(seam_of p := p_new p))"

definition exit_handle :: "handle \<Rightarrow> seams \<Rightarrow> seams" where
  "exit_handle entered s = s(h_seam entered := h_original entered)"

text \<open>
  Modelled from the spec: the exit stack of a session (\<open>contextlib.ExitStack\<close>, driven by
  the cassette, which is not part of this module). Patchers are entered in the order
  they are yielded, each pushed on the stack; leaving exits them last entered first.
\<close>

fun enter_all :: "patcher list \<Rightarrow> handle list \<Rightarrow> seams \<Rightarrow> handle list \<times> seams" where
  "enter_all [] stack s = (stack, s)"
| "enter_all (p # ps) stack s =
     (case enter_patcher p s of (entered, s') \<Rightarrow> enter_all ps (entered # stack) s')"

fun exit_all :: "handle list \<Rightarrow> seams \<Rightarrow> seams" where
  "exit_all [] s = s"
| "exit_all (entered # stack) s = exit_all stack (exit_handle entered s)"

text \<open>
  Modelled from the spec: sessions entered and exited in strict LIFO order. A session
  enters its patchers; an exit always ends the session entered last; an exit with no
  session active is not a run.
\<close>

datatype event = Enter "patcher list" | Exit

fun run :: "event list \<Rightarrow> handle list list \<Rightarrow> seams \<Rightarrow> (handle list list \<times> seams) option" where
  "run [] active s = Some (active, s)"
| "run (Enter ps # events) active s =
     (case enter_all ps [] s of (stack, s') \<Rightarrow> run events (stack # active) s')"
| "run (Exit # events) [] s = None"
| "run (Exit # events) (stack # active) s = run events active (exit_all stack s)"

text \<open>Leaving every session that is still active, innermost first.\<close>

fun unwind :: "handle list list \<Rightarrow> seams \<Rightarrow> seams" where
  "unwind [] s = s"
| "unwind (stack # active) s = unwind active (exit_all stack s)"

text \<open>
  \<open>reset_patchers\<close>: the patchers it yields, each putting an original saved at load time
  back on a seam. They are made by \<open>mock.patch.object\<close> directly.
\<close>

definition reset_patcher :: "target \<Rightarrow> string \<Rightarrow> string \<Rightarrow> patcher" where
  "reset_patcher obj attribute saved =
     \<lparr>p_target = obj, p_attribute = attribute, p_new = Saved saved\<rparr>"

definition reset_patchers :: "env \<Rightarrow> patcher list" where
  "reset_patchers e =
     [reset_patcher httplib ''HTTPConnection'' ''_HTTPConnection'',
      reset_patcher httplib ''HTTPSConnection'' ''_HTTPSConnection''] @
     (if \<not> import_urllib3 e then []
      else [reset_patcher urllib3_connection ''VerifiedHTTPSConnection'' ''_VerifiedHTTPSConnection'',
            reset_patcher urllib3_connection ''HTTPConnection'' ''_connHTTPConnection'',
            reset_patcher urllib3_connection ''HTTPSConnection'' ''_connHTTPSConnection''] @
           (if hasattr e HTTPConnectionPool ''ConnectionCls''
            then [reset_patcher HTTPConnectionPool ''ConnectionCls'' ''_connHTTPConnection'',
                  reset_patcher HTTPSConnectionPool ''ConnectionCls'' ''_connHTTPSConnection'']
            else [])) @
     (if \<not> import_botocore_awsrequest e then []
      else (if hasattr e AWSHTTPConnectionPool ''ConnectionCls''
            then [reset_patcher AWSHTTPConnectionPool ''ConnectionCls'' ''_cpoolBoto3HTTPConnection'',
                  reset_patcher AWSHTTPSConnectionPool ''ConnectionCls'' ''_cpoolBoto3HTTPSConnection'']
            else []) @
           (if hasattr e botocore_awsrequest ''AWSHTTPSConnection''
            then [reset_patcher botocore_awsrequest ''AWSHTTPSConnection'' ''_cpoolBoto3HTTPSConnection'']
            else [])) @
     (if \<not> import_httplib2 e then []
      else [reset_patcher httplib2 ''HTTPConnectionWithTimeout'' ''_HTTPConnectionWithTimeout'',
            reset_patcher httplib2 ''HTTPSConnectionWithTimeout'' ''_HTTPSConnectionWithTimeout'',
            reset_patcher httplib2 ''SCHEME_TO_CONNECTION'' ''_SCHEME_TO_CONNECTION'']) @
     (if \<not> import_boto_https_connection e then []
      else [reset_patcher boto_https_connection ''CertValidatingHTTPSConnection''
              ''_CertValidatingHTTPSConnection'']) @
     (if \<not> import_tornado_simple_httpclient e then []
      else [reset_patcher SimpleAsyncHTTPClient ''fetch_impl'' ''_SimpleAsyncHTTPClient_fetch_impl'']) @
     (if \<not> import_tornado_curl_httpclient e then []
      else [reset_patcher CurlAsyncHTTPClient ''fetch_impl'' ''_CurlAsyncHTTPClient_fetch_impl''])"

text \<open>
  \<open>force_reset\<close>: entering it enters every patcher of \<open>reset_patchers\<close> on one exit
  stack; leaving it unwinds that stack.
\<close>

definition force_reset_enter :: "env \<Rightarrow> seams \<Rightarrow> handle list \<times> seams" where
  "force_reset_enter e s = enter_all (reset_patchers e) [] s"

definition force_reset_exit :: "handle list \<Rightarrow> seams \<Rightarrow> seams" where
  "force_reset_exit stack s = exit_all stack s"

section \<open>Concrete states\<close>

text \<open>
  A cassette, a stub class whose \<open>cassette\<close> attribute is \<open>None\<close>, and a class that an
  outer session has already bound to its own cassette.
\<close>

definition ex_cassette :: cassette_obj where
  "ex_cassette = \<lparr>cassette_id = 1, cassette_path = ''inner.yaml'', custom_patches = []\<rparr>"

definition ex_stub :: pyobj where
  "ex_stub = \<lparr>is_class = True, obj_name = ''VCRHTTPConnection'', obj_bases = [],
              obj_cassette = PyNone\<rparr>"

definition ex_bound_elsewhere :: pyobj where
  "ex_bound_elsewhere = \<lparr>is_class = True, obj_name = ''VCRHTTPConnectionouter.yaml'',
              obj_bases = [0], obj_cassette = Bound 2\<rparr>"

definition ex_substitute :: pyobj where
  "ex_substitute = \<lparr>is_class = True, obj_name = ''VCRHTTPConnectioninner.yaml'',
              obj_bases = [0], obj_cassette = Bound 1\<rparr>"

text \<open>An object that is not a class and whose \<open>cassette\<close> attribute is \<open>None\<close>.\<close>

definition ex_instance :: pyobj where
  "ex_instance = \<lparr>is_class = False, obj_name = ''connection'', obj_bases = [],
              obj_cassette = PyNone\<rparr>"

definition ex_builder_filled :: builder where
  "ex_builder_filled =
     \<lparr>b_cassette = ex_cassette, class_to_cassette_subclass = [0 \<mapsto> 2]\<rparr>"

definition ex_stub_https :: pyobj where
  "ex_stub_https = \<lparr>is_class = True, obj_name = ''VCRHTTPSConnection'', obj_bases = [],
              obj_cassette = PyNone\<rparr>"

definition ex_substitute_https :: pyobj where
  "ex_substitute_https = \<lparr>is_class = True, obj_name = ''VCRHTTPSConnectioninner.yaml'',
              obj_bases = [1], obj_cassette = Bound 1\<rparr>"

text \<open>
  Pools. Objects numbered from 10 are instances of class 9, the substitute connection
  class; smaller numbers are the library's own connections and placeholders.
\<close>

definition ex_isinstance :: "ref \<Rightarrow> ref \<Rightarrow> bool" where
  "ex_isinstance c cls = (cls = 9 \<and> 10 \<le> c)"

definition ex_pool :: "ref list \<Rightarrow> pool_obj" where
  "ex_pool queue = \<lparr>pool = Some queue, lifo = True, ConnectionCls = Some 9\<rparr>"

definition ex_fifo_pool :: "ref list \<Rightarrow> pool_obj" where
  "ex_fifo_pool queue = \<lparr>pool = Some queue, lifo = False, ConnectionCls = Some 9\<rparr>"

definition ex_closed_pool :: pool_obj where
  "ex_closed_pool = \<lparr>pool = None, lifo = True, ConnectionCls = Some 9\<rparr>"

definition ex_remover :: "(ref \<times> ref set) list \<Rightarrow> connection_remover" where
  "ex_remover d = \<lparr>connection_class = 9, connection_pool_to_connections = d\<rparr>"

definition ex_pools :: "ref \<Rightarrow> pool_obj" where
  "ex_pools = (\<lambda>_. ex_closed_pool)(0 := ex_pool [], 2 := ex_pool [3, 13, 4])"

text \<open>An environment in which only \<open>http.client\<close> and aiohttp are there to patch.\<close>

definition ex_hasattr :: "target \<Rightarrow> string \<Rightarrow> bool" where
  "ex_hasattr t a =
     ((t = httplib \<and> (a = ''HTTPConnection'' \<or> a = ''HTTPSConnection'')) \<or>
      (t = aiohttp_ClientSession \<and> a = ''_request''))"

definition ex_env :: env where
  "ex_env =
     \<lparr>hasattr = ex_hasattr,
      stub_class = (\<lambda>s. if s = VCRHTTPConnection then 0 else if s = VCRHTTPSConnection then 1 else 99),
      import_requests_stubs = False, import_urllib3 = False,
      import_botocore_awsrequest = False, import_httplib2 = False,
      import_boto_https_connection = False, import_tornado_simple_httpclient = False,
      import_tornado_curl_httpclient = False, import_aiohttp_client = True,
      import_httpx = False\<rparr>"

text \<open>A cassette with three custom triples; the second names an attribute that is not there.\<close>

definition ex_cassette_custom :: cassette_obj where
  "ex_cassette_custom =
     \<lparr>cassette_id = 1, cassette_path = ''inner.yaml'',
      custom_patches = [(httplib, ''HTTPSConnection'', Ref 0),
                        (OtherTarget 7, ''missing'', Ref 5),
                        (httplib, ''HTTPConnection'', Ref 1)]\<rparr>"

text \<open>
  Seams in the middle of session 1, in an environment with urllib3: \<open>http.client\<close> holds
  the session's substitute class, the pool class holds the session's \<open>patched_new_conn\<close>.
\<close>

definition ex_env_urllib3 :: env where
  "ex_env_urllib3 = ex_env\<lparr>hasattr := (\<lambda>t a. True), import_urllib3 := True\<rparr>"

definition ex_seams :: seams where
  "ex_seams = (\<lambda>x. Saved ''pristine'')
     ((httplib, ''HTTPConnection'') := Ref 2,
      (HTTPConnectionPool, ''_new_conn'') := Func ''patched_new_conn(HTTPConnectionPool)'' 1)"

text \<open>Two sessions patching the same seam: the outer one installs class 2, the inner one class 5.\<close>

definition ex_patcher_outer :: patcher where
  "ex_patcher_outer = \<lparr>p_target = httplib, p_attribute = ''HTTPConnection'', p_new = Ref 2\<rparr>"

definition ex_patcher_inner :: patcher where
  "ex_patcher_inner = \<lparr>p_target = httplib, p_attribute = ''HTTPConnection'', p_new = Ref 5\<rparr>"

definition ex_pristine :: seams where
  "ex_pristine = (\<lambda>x. Saved ''pristine'')"

section \<open>The substitute type cache\<close>

lemma get_cassette_subclass_step:
  assumes "get_cassette_subclass b h klass = Inr (r, b', h')"
  shows "\<exists>ext. h' = h @ ext \<and>
           (\<forall>obj \<in> set ext. obj_bases obj = [klass] \<and> obj_cassette obj \<noteq> PyNone \<and>
                             class_to_cassette_subclass b klass = None)"
    and "b_cassette b' = b_cassette b"
    and "class_to_cassette_subclass b k = Some s \<Longrightarrow> class_to_cassette_subclass b' k = Some s"
    and "cassette_attr h klass = PyNone \<Longrightarrow> class_to_cassette_subclass b' klass = Some r"
  using assms
  by (auto simp: get_cassette_subclass_def build_cassette_subclass_def alloc_def
      split: attr.splits option.splits sum.splits if_splits)

lemma cassette_attr_append: "r < length h \<Longrightarrow> cassette_attr (h @ ext) r = cassette_attr h r"
  by (simp add: cassette_attr_def nth_append)

lemma cassette_attr_PyNone_append:
  "cassette_attr h r = PyNone \<Longrightarrow> cassette_attr (h @ ext) r = PyNone"
  by (auto simp: cassette_attr_def nth_append split: if_splits)

text \<open>The cache invariant holds for a new builder and is kept by every call.\<close>

lemma cache_ok_init: "cache_ok (builder_init cassette) h"
  by (simp add: cache_ok_def builder_init_def)

lemma cache_ok_step:
  assumes "cache_ok b h" "get_cassette_subclass b h klass = Inr (r, b', h')"
  shows "cache_ok b' h'"
  unfolding cache_ok_def
proof (intro allI impI)
  fix k s
  assume ks: "class_to_cassette_subclass b' k = Some s"
  let ?c = "Bound (cassette_id (b_cassette b))"
  from get_cassette_subclass_step(1)[OF assms(2)] obtain ext where e: "h' = h @ ext" by blast
  have cass: "b_cassette b' = b_cassette b" using get_cassette_subclass_step(2)[OF assms(2)] .
  have old: "cassette_attr h' s' = ?c" if "class_to_cassette_subclass b k' = Some s'" for k' s'
  proof -
    from assms(1) that have a: "cassette_attr h s' = ?c" by (auto simp: cache_ok_def)
    then have "s' < length h" by (auto simp: cassette_attr_def split: if_splits)
    with a e show ?thesis by (simp add: cassette_attr_append)
  qed
  have "cassette_attr h' s = ?c"
  proof (cases "class_to_cassette_subclass b k = Some s")
    case True
    then show ?thesis by (rule old)
  next
    case False
    with ks assms(2) show ?thesis
      by (auto simp: get_cassette_subclass_def build_cassette_subclass_def alloc_def
          cassette_attr_def split: attr.splits option.splits sum.splits if_splits)
  qed
  with cass show "cassette_attr h' s = Bound (cassette_id (b_cassette b'))" by simp
qed

text \<open>
  C1, as amended. \<open>_get_cassette_subclass\<close> tests \<open>klass.cassette is not None\<close>, not
  whose cassette it is. For a builder whose cache holds only its own substitutes, a call
  that returns gives back the input class itself exactly when the class carries a binding
  other than \<open>None\<close>, to this session or to any other; a class whose binding is \<open>None\<close>
  is answered by a different class, bound to this builder's cassette. The call raises
  only when the attribute is missing (AttributeError) or when the value is unbound,
  uncached and not a class (TypeError).
\<close>

theorem get_cassette_subclass_unchanged_iff:
  assumes "cache_ok b h"
  shows "case get_cassette_subclass b h klass of
           Inl e \<Rightarrow> (cassette_attr h klass = Absent \<and> e = AttributeError) \<or>
                    (cassette_attr h klass = PyNone \<and> \<not> class_at h klass \<and> e = TypeError)
         | Inr (r, b', h') \<Rightarrow>
             (r = klass \<longleftrightarrow> cassette_attr h klass \<noteq> PyNone) \<and>
             (r \<noteq> klass \<longrightarrow> cassette_attr h' r = Bound (cassette_id (b_cassette b)))"
  using assms
  by (auto simp: get_cassette_subclass_def build_cassette_subclass_def cache_ok_def alloc_def
      cassette_attr_def class_at_def split: attr.splits option.splits sum.splits if_splits)

theorem get_cassette_subclass_unchanged_iff_witness:
  "cache_ok ex_builder_filled [ex_stub, ex_bound_elsewhere, ex_substitute] \<and>
   get_cassette_subclass ex_builder_filled [ex_stub, ex_bound_elsewhere, ex_substitute] 0
     = Inr (2, ex_builder_filled, [ex_stub, ex_bound_elsewhere, ex_substitute]) \<and>
   get_cassette_subclass ex_builder_filled [ex_stub, ex_bound_elsewhere, ex_substitute] 1
     = Inr (1, ex_builder_filled, [ex_stub, ex_bound_elsewhere, ex_substitute]) \<and>
   cassette_attr [ex_stub, ex_bound_elsewhere, ex_substitute] 2 = Bound (cassette_id ex_cassette)"
proof -
  have ok: "cache_ok ex_builder_filled [ex_stub, ex_bound_elsewhere, ex_substitute]"
    by (simp add: cache_ok_def ex_builder_filled_def ex_cassette_def ex_substitute_def
        cassette_attr_def)
  show ?thesis
    using ok get_cassette_subclass_unchanged_iff [OF ok, of 0]
      get_cassette_subclass_unchanged_iff [OF ok, of 1]
    by (simp add: get_cassette_subclass_def cassette_attr_def ex_builder_filled_def
        ex_cassette_def ex_stub_def ex_bound_elsewhere_def ex_substitute_def)
qed

text \<open>
  C1, as stated, fails: the builder of cassette 1 is handed a class bound to cassette 2
  and returns that very class, with nothing built and nothing cached.
\<close>

theorem get_cassette_subclass_other_session_unchanged:
  "get_cassette_subclass (builder_init ex_cassette) [ex_stub, ex_bound_elsewhere] 1
     = Inr (1, builder_init ex_cassette, [ex_stub, ex_bound_elsewhere]) \<and>
   cassette_attr [ex_stub, ex_bound_elsewhere] 1 = Bound 2 \<and>
   cassette_id (b_cassette (builder_init ex_cassette)) = 1"
  by (simp add: get_cassette_subclass_def cassette_attr_def builder_init_def ex_cassette_def
      ex_bound_elsewhere_def)

lemma get_cassette_subclass_hit:
  assumes "cassette_attr h k = PyNone" "class_to_cassette_subclass b k = Some r"
  shows "get_cassette_subclass b h k = Inr (r, b, h)"
  using assms by (simp add: get_cassette_subclass_def)

lemma calls_keep:
  assumes "cassette_attr h k = PyNone" "class_to_cassette_subclass b k = Some r"
    "get_cassette_subclass_calls b h ks = (b2, h2)"
  shows "cassette_attr h2 k = PyNone \<and> class_to_cassette_subclass b2 k = Some r \<and>
         (\<exists>ext. h2 = h @ ext \<and> (\<forall>obj \<in> set ext. obj_bases obj \<noteq> [k]))"
  using assms
proof (induction ks arbitrary: b h)
  case Nil
  then show ?case by simp
next
  case (Cons a ks)
  show ?case
  proof (cases "get_cassette_subclass b h a")
    case (Inl e)
    with Cons show ?thesis by simp
  next
    case (Inr res)
    obtain r' b' h' where res: "res = (r', b', h')" by (cases res) auto
    from Inr res have st: "get_cassette_subclass b h a = Inr (r', b', h')" by simp
    from get_cassette_subclass_step(1)[OF st] obtain ext1 where
      e1: "h' = h @ ext1"
        "\<forall>obj \<in> set ext1. obj_bases obj = [a] \<and> obj_cassette obj \<noteq> PyNone \<and>
                           class_to_cassette_subclass b a = None"
      by blast
    have k1: "cassette_attr h' k = PyNone"
      using e1 Cons.prems(1) by (simp add: cassette_attr_PyNone_append)
    have c1: "class_to_cassette_subclass b' k = Some r"
      using get_cassette_subclass_step(3)[OF st Cons.prems(2)] .
    have run: "get_cassette_subclass_calls b' h' ks = (b2, h2)" using Cons.prems(3) st by simp
    from Cons.IH[OF k1 c1 run] obtain ext2 where
      e2: "cassette_attr h2 k = PyNone" "class_to_cassette_subclass b2 k = Some r"
          "h2 = h' @ ext2" "\<forall>obj \<in> set ext2. obj_bases obj \<noteq> [k]" by blast
    have "\<forall>obj \<in> set ext1. obj_bases obj \<noteq> [k]" using e1(2) Cons.prems(2) by auto
    with e1 e2 show ?thesis by auto
  qed
qed

text \<open>
  C2. For a class with no binding (\<open>cassette\<close> is \<open>None\<close>), once a call has returned a
  substitute, every later call on the same builder, after any other calls in between,
  returns that same object and changes neither the cache nor the heap; and no class
  created after the first call is a second subclass of the base class.
\<close>

theorem get_cassette_subclass_stable:
  assumes "cassette_attr h k = PyNone"
    and "get_cassette_subclass b h k = Inr (r, b1, h1)"
    and "get_cassette_subclass_calls b1 h1 ks = (b2, h2)"
  shows "get_cassette_subclass b2 h2 k = Inr (r, b2, h2) \<and>
         (\<forall>i. length h1 \<le> i \<and> i < length h2 \<longrightarrow> obj_bases (h2 ! i) \<noteq> [k])"
proof -
  from get_cassette_subclass_step(1)[OF assms(2)] obtain ext1 where e1: "h1 = h @ ext1" by blast
  have k1: "cassette_attr h1 k = PyNone"
    using e1 assms(1) by (simp add: cassette_attr_PyNone_append)
  have c1: "class_to_cassette_subclass b1 k = Some r"
    using get_cassette_subclass_step(4)[OF assms(2) assms(1)] .
  from calls_keep[OF k1 c1 assms(3)] obtain ext2 where
    e2: "cassette_attr h2 k = PyNone" "class_to_cassette_subclass b2 k = Some r"
        "h2 = h1 @ ext2" "\<forall>obj \<in> set ext2. obj_bases obj \<noteq> [k]" by blast
  have "get_cassette_subclass b2 h2 k = Inr (r, b2, h2)"
    using e2(1,2) by (rule get_cassette_subclass_hit)
  moreover have "\<forall>i. length h1 \<le> i \<and> i < length h2 \<longrightarrow> obj_bases (h2 ! i) \<noteq> [k]"
    using e2(3,4) by (auto simp: nth_append)
  ultimately show ?thesis by simp
qed

theorem get_cassette_subclass_stable_witness:
  "cassette_attr [ex_stub, ex_stub_https] 0 = PyNone \<and>
   get_cassette_subclass (builder_init ex_cassette) [ex_stub, ex_stub_https] 0
     = Inr (2, \<lparr>b_cassette = ex_cassette, class_to_cassette_subclass = [0 \<mapsto> 2]\<rparr>,
            [ex_stub, ex_stub_https, ex_substitute]) \<and>
   get_cassette_subclass_calls
       \<lparr>b_cassette = ex_cassette, class_to_cassette_subclass = [0 \<mapsto> 2]\<rparr>
       [ex_stub, ex_stub_https, ex_substitute] [1, 0]
     = (\<lparr>b_cassette = ex_cassette, class_to_cassette_subclass = [0 \<mapsto> 2, 1 \<mapsto> 3]\<rparr>,
        [ex_stub, ex_stub_https, ex_substitute, ex_substitute_https]) \<and>
   get_cassette_subclass
       \<lparr>b_cassette = ex_cassette, class_to_cassette_subclass = [0 \<mapsto> 2, 1 \<mapsto> 3]\<rparr>
       [ex_stub, ex_stub_https, ex_substitute, ex_substitute_https] 0
     = Inr (2, \<lparr>b_cassette = ex_cassette, class_to_cassette_subclass = [0 \<mapsto> 2, 1 \<mapsto> 3]\<rparr>,
            [ex_stub, ex_stub_https, ex_substitute, ex_substitute_https]) \<and>
   obj_bases ([ex_stub, ex_stub_https, ex_substitute, ex_substitute_https] ! 3) = [1]"
proof -
  have h1: "cassette_attr [ex_stub, ex_stub_https] 0 = PyNone"
    by (simp add: cassette_attr_def ex_stub_def)
  have h2: "get_cassette_subclass (builder_init ex_cassette) [ex_stub, ex_stub_https] 0
     = Inr (2, \<lparr>b_cassette = ex_cassette, class_to_cassette_subclass = [0 \<mapsto> 2]\<rparr>,
            [ex_stub, ex_stub_https, ex_substitute])"
    by (simp add: get_cassette_subclass_def build_cassette_subclass_def alloc_def class_at_def
        cassette_attr_def builder_init_def ex_stub_def ex_substitute_def ex_cassette_def
        numeral_2_eq_2)
  have h3: "get_cassette_subclass_calls
       \<lparr>b_cassette = ex_cassette, class_to_cassette_subclass = [0 \<mapsto> 2]\<rparr>
       [ex_stub, ex_stub_https, ex_substitute] [1, 0]
     = (\<lparr>b_cassette = ex_cassette, class_to_cassette_subclass = [0 \<mapsto> 2, 1 \<mapsto> 3]\<rparr>,
        [ex_stub, ex_stub_https, ex_substitute, ex_substitute_https])"
    by (simp add: get_cassette_subclass_def build_cassette_subclass_def alloc_def class_at_def
        cassette_attr_def ex_stub_def ex_stub_https_def ex_substitute_https_def ex_cassette_def
        ex_substitute_def numeral_2_eq_2 numeral_3_eq_3)
  show ?thesis
    using h1 h2 h3 get_cassette_subclass_stable [OF h1 h2 h3]
    by (simp add: ex_substitute_https_def)
qed

section \<open>ConnectionRemover: tracking and teardown\<close>

lemma drain_spec:
  "drain inst q conns readd = (e, q', conns', readd') \<Longrightarrow>
   \<exists>popped. readd' = readd @ filter (\<lambda>c. \<not> inst c) popped \<and>
            conns' = conns - set (filter inst popped) \<and>
            set (filter inst popped) \<subseteq> conns \<and>
            (case e of
               None \<Rightarrow> q = popped @ q' \<and> (conns' = {} \<or> q' = [])
             | Some err \<Rightarrow> err = KeyError \<and> (\<exists>c. q = popped @ c # q' \<and> inst c \<and> c \<notin> conns'))"
proof (induction inst q conns readd rule: drain.induct)
  case (1 is_instance connections readd_connections)
  then show ?case by (intro exI[of _ "[]"]) auto
next
  case (2 is_instance connection queue connections readd_connections)
  show ?case
  proof (cases "connections = {}")
    case True
    with "2.prems" show ?thesis by (intro exI[of _ "[]"]) auto
  next
    case ne: False
    show ?thesis
    proof (cases "is_instance connection")
      case inst: True
      show ?thesis
      proof (cases "connection \<in> connections")
        case True
        with ne inst "2.prems" have
          "drain is_instance queue (connections - {connection}) readd_connections = (e, q', conns', readd')"
          by simp
        from "2.IH"(1)[OF ne inst True this] obtain popped where
          p: "readd' = readd_connections @ filter (\<lambda>c. \<not> is_instance c) popped"
             "conns' = connections - {connection} - set (filter is_instance popped)"
             "set (filter is_instance popped) \<subseteq> connections - {connection}"
             "(case e of
               None \<Rightarrow> queue = popped @ q' \<and> (conns' = {} \<or> q' = [])
             | Some err \<Rightarrow> err = KeyError \<and> (\<exists>c. queue = popped @ c # q' \<and> is_instance c \<and> c \<notin> conns'))"
          by blast
        show ?thesis
          using p inst True
          by (intro exI[of _ "connection # popped"]) (auto split: option.splits)
      next
        case False
        with ne inst "2.prems" show ?thesis by (intro exI[of _ "[]"]) auto
      qed
    next
      case ninst: False
      with ne "2.prems" have
        "drain is_instance queue connections (readd_connections @ [connection]) = (e, q', conns', readd')"
        by simp
      from "2.IH"(2)[OF ne ninst this] obtain popped where
        p: "readd' = (readd_connections @ [connection]) @ filter (\<lambda>c. \<not> is_instance c) popped"
           "conns' = connections - set (filter is_instance popped)"
           "set (filter is_instance popped) \<subseteq> connections"
           "(case e of
               None \<Rightarrow> queue = popped @ q' \<and> (conns' = {} \<or> q' = [])
             | Some err \<Rightarrow> err = KeyError \<and> (\<exists>c. queue = popped @ c # q' \<and> is_instance c \<and> c \<notin> conns'))"
        by blast
      show ?thesis
        using p ninst
        by (intro exI[of _ "connection # popped"]) (auto split: option.splits)
    qed
  qed
qed

lemma drain_no_error:
  "distinct (filter inst q) \<Longrightarrow> set (filter inst q) \<subseteq> conns \<Longrightarrow>
   fst (drain inst q conns readd) = None"
proof (induction inst q conns readd rule: drain.induct)
  case (1 is_instance connections readd_connections)
  then show ?case by simp
next
  case (2 is_instance connection queue connections readd_connections)
  show ?case
  proof (cases "connections = {}")
    case True
    then show ?thesis by simp
  next
    case ne: False
    show ?thesis
    proof (cases "is_instance connection")
      case inst: True
      with "2.prems" have mem: "connection \<in> connections"
        and d: "distinct (filter is_instance queue)"
        and s: "set (filter is_instance queue) \<subseteq> connections - {connection}"
        by auto
      from "2.IH"(1)[OF ne inst mem d s] ne inst mem show ?thesis by simp
    next
      case ninst: False
      with "2.prems" have d: "distinct (filter is_instance queue)"
        and s: "set (filter is_instance queue) \<subseteq> connections"
        by auto
      from "2.IH"(2)[OF ne ninst d s] ne ninst show ?thesis by simp
    qed
  qed
qed

lemma foldl_put_conn:
  "pool p = Some q \<Longrightarrow>
   foldl put_conn p xs = p\<lparr>pool := Some (if lifo p then rev xs @ q else q @ xs)\<rparr>"
proof (induction xs arbitrary: p q)
  case Nil
  then show ?case by simp
next
  case (Cons x xs)
  have "pool (put_conn p x) = Some (if lifo p then x # q else q @ [x])"
    and "lifo (put_conn p x) = lifo p"
    using Cons.prems by (simp_all add: put_conn_def)
  from Cons.IH[OF this(1)] this(2) Cons.prems show ?case
    by (simp add: put_conn_def)
qed

lemma exit_pool_ok:
  assumes "exit_pool inst p conns = (None, p', conns')"
  shows "case pool p of
           None \<Rightarrow> p' = p \<and> conns' = conns
         | Some q \<Rightarrow>
             (\<exists>popped rest. q = popped @ rest \<and>
                set (filter inst popped) \<subseteq> conns \<and>
                conns' = conns - set (filter inst popped) \<and>
                (conns' = {} \<or> rest = []) \<and>
                p' = p\<lparr>pool := Some (if lifo p then rev (filter (\<lambda>c. \<not> inst c) popped) @ rest
                                      else rest @ filter (\<lambda>c. \<not> inst c) popped)\<rparr>)"
proof (cases "pool p")
  case None
  with assms show ?thesis by (simp add: exit_pool_def)
next
  case (Some q)
  obtain e q' c' readd where d: "drain inst q conns [] = (e, q', c', readd)"
    by (cases "drain inst q conns []") auto
  with assms Some have e: "e = None" and c: "c' = conns'"
    and p': "p' = foldl put_conn (p\<lparr>pool := Some q'\<rparr>) readd"
    by (auto simp: exit_pool_def split: option.splits)
  from drain_spec[OF d] e obtain popped where
    sp: "readd = filter (\<lambda>c. \<not> inst c) popped" "c' = conns - set (filter inst popped)"
        "set (filter inst popped) \<subseteq> conns" "q = popped @ q'" "c' = {} \<or> q' = []"
    by auto
  have "p' = p\<lparr>pool := Some (if lifo p then rev readd @ q' else q' @ readd)\<rparr>"
    unfolding p' by (subst foldl_put_conn[where q = q']) simp_all
  with sp c Some show ?thesis by auto
qed

lemma exit_pool_subset:
  assumes "exit_pool inst p conns = (e, p', conns')"
  shows "conns' \<subseteq> conns"
proof (cases "pool p")
  case None
  with assms show ?thesis by (simp add: exit_pool_def)
next
  case (Some q)
  obtain e1 q' c' readd where d: "drain inst q conns [] = (e1, q', c', readd)"
    by (cases "drain inst q conns []") auto
  from drain_spec[OF d] have "c' \<subseteq> conns" by auto
  with assms Some d show ?thesis by (auto simp: exit_pool_def split: option.splits)
qed

lemma exit_pool_no_error:
  assumes "covered inst p conns"
  shows "fst (exit_pool inst p conns) = None"
proof (cases "pool p")
  case None
  then show ?thesis by (simp add: exit_pool_def)
next
  case (Some q)
  with assms have "fst (drain inst q conns []) = None"
    by (simp add: covered_def drain_no_error)
  with Some show ?thesis
    by (cases "drain inst q conns []") (auto simp: exit_pool_def)
qed

lemma exit_items_subset:
  "exit_items inst d pools = (e, d', pools') \<Longrightarrow>
   list_all2 (\<lambda>entry entry'. fst entry' = fst entry \<and> snd entry' \<subseteq> snd entry) d d'"
proof (induction d arbitrary: pools e d' pools')
  case Nil
  then show ?case by simp
next
  case (Cons a d)
  obtain p conns where a: "a = (p, conns)" by (cases a) auto
  obtain e1 p1 c1 where ep: "exit_pool inst (pools p) conns = (e1, p1, c1)"
    by (cases "exit_pool inst (pools p) conns") auto
  have sub: "c1 \<subseteq> conns" using exit_pool_subset[OF ep] .
  have refl: "list_all2 (\<lambda>entry entry'. fst entry' = fst entry \<and> snd entry' \<subseteq> snd entry) d d"
    by (simp add: list_all2_same)
  show ?case
  proof (cases e1)
    case (Some err)
    with Cons.prems a ep have "d' = (p, c1) # d" by auto
    with a sub refl show ?thesis by simp
  next
    case None
    obtain e2 d2 pools2 where ei: "exit_items inst d (pools(p := p1)) = (e2, d2, pools2)"
      by (cases "exit_items inst d (pools(p := p1))") auto
    from Cons.prems a ep None ei have "d' = (p, c1) # d2" by auto
    with Cons.IH[OF ei] a sub show ?thesis by simp
  qed
qed

lemma exit_items_ok:
  "exit_items inst d pools = (None, d', pools') \<Longrightarrow> distinct (map fst d) \<Longrightarrow>
   (\<forall>p. p \<notin> fst ` set d \<longrightarrow> pools' p = pools p) \<and>
   list_all2 (\<lambda>entry entry'. fst entry' = fst entry \<and>
        exit_pool inst (pools (fst entry)) (snd entry) = (None, pools' (fst entry), snd entry')) d d'"
proof (induction d arbitrary: pools d' pools')
  case Nil
  then show ?case by simp
next
  case (Cons a d)
  obtain p conns where a: "a = (p, conns)" by (cases a) auto
  obtain e1 p1 c1 where ep: "exit_pool inst (pools p) conns = (e1, p1, c1)"
    by (cases "exit_pool inst (pools p) conns") auto
  obtain e2 d2 pools2 where ei: "exit_items inst d (pools(p := p1)) = (e2, d2, pools2)"
    by (cases "exit_items inst d (pools(p := p1))") auto
  from Cons.prems(1) a ep ei have e1: "e1 = None" and e2: "e2 = None"
    and d': "d' = (p, c1) # d2" and ps: "pools' = pools2"
    by (auto split: option.splits)
  from Cons.prems(2) a have dist: "distinct (map fst d)" and pn: "p \<notin> fst ` set d" by auto
  from Cons.IH[OF ei[unfolded e2] dist] have
    frame: "\<forall>x. x \<notin> fst ` set d \<longrightarrow> pools2 x = (pools(p := p1)) x"
    and rest: "list_all2 (\<lambda>entry entry'. fst entry' = fst entry \<and>
        exit_pool inst ((pools(p := p1)) (fst entry)) (snd entry)
          = (None, pools2 (fst entry), snd entry')) d d2"
    by auto
  have pp: "pools2 p = p1" using frame pn by simp
  have rest': "list_all2 (\<lambda>entry entry'. fst entry' = fst entry \<and>
        exit_pool inst (pools (fst entry)) (snd entry)
          = (None, pools2 (fst entry), snd entry')) d d2"
    using rest
  proof (rule list.rel_mono_strong)
    fix entry entry'
    assume "entry \<in> set d"
      and "fst entry' = fst entry \<and>
        exit_pool inst ((pools(p := p1)) (fst entry)) (snd entry)
          = (None, pools2 (fst entry), snd entry')"
    with pn show "fst entry' = fst entry \<and>
        exit_pool inst (pools (fst entry)) (snd entry)
          = (None, pools2 (fst entry), snd entry')"
      by (auto simp: image_iff)
  qed
  show ?case
    using frame pp rest' ep e1 a d' ps by auto
qed

lemma exit_items_no_error:
  "distinct (map fst d) \<Longrightarrow> \<forall>entry \<in> set d. covered inst (pools (fst entry)) (snd entry) \<Longrightarrow>
   fst (exit_items inst d pools) = None"
proof (induction d arbitrary: pools)
  case Nil
  then show ?case by simp
next
  case (Cons a d)
  obtain p conns where a: "a = (p, conns)" by (cases a) auto
  obtain e1 p1 c1 where ep: "exit_pool inst (pools p) conns = (e1, p1, c1)"
    by (cases "exit_pool inst (pools p) conns") auto
  from Cons.prems(2) a have "covered inst (pools p) conns" by simp
  from exit_pool_no_error[OF this] ep have e1: "e1 = None" by simp
  from Cons.prems a have dist: "distinct (map fst d)" and pn: "p \<notin> fst ` set d" by auto
  have "\<forall>entry \<in> set d. covered inst ((pools(p := p1)) (fst entry)) (snd entry)"
    using Cons.prems(2) pn by (auto simp: image_iff)
  from Cons.IH[OF dist this] have "fst (exit_items inst d (pools(p := p1))) = None" .
  with ep e1 a show ?case
    by (cases "exit_items inst d (pools(p := p1))") auto
qed

lemma connection_remover_exit_pools:
  assumes "connection_remover_exit isinstance r pools = (None, r', pools')"
    and "distinct (map fst (connection_pool_to_connections r))"
  shows "(\<forall>p. p \<notin> fst ` set (connection_pool_to_connections r) \<longrightarrow> pools' p = pools p) \<and>
         list_all2 (\<lambda>entry entry'. fst entry' = fst entry \<and>
             exit_pool (\<lambda>c. isinstance c (connection_class r)) (pools (fst entry)) (snd entry)
               = (None, pools' (fst entry), snd entry'))
           (connection_pool_to_connections r) (connection_pool_to_connections r')"
proof -
  let ?inst = "\<lambda>c. isinstance c (connection_class r)"
  obtain e d' ps where ei:
    "exit_items ?inst (connection_pool_to_connections r) pools = (e, d', ps)"
    by (cases "exit_items ?inst (connection_pool_to_connections r) pools") auto
  with assms(1) have "e = None" "ps = pools'" "connection_pool_to_connections r' = d'"
    by (auto simp: connection_remover_exit_def)
  with exit_items_ok[OF ei[unfolded \<open>e = None\<close>] assms(2)] show ?thesis by simp
qed

lemma exit_pool_of_entry:
  assumes "list_all2 (\<lambda>entry entry'. fst entry' = fst entry \<and>
             exit_pool inst (pools (fst entry)) (snd entry)
               = (None, pools' (fst entry), snd entry')) d d'"
  shows "p \<in> fst ` set d \<Longrightarrow> \<exists>conns conns'. (p, conns) \<in> set d \<and> (p, conns') \<in> set d' \<and>
            exit_pool inst (pools p) conns = (None, pools' p, conns')"
    and "entry' \<in> set d' \<Longrightarrow> \<exists>conns. (fst entry', conns) \<in> set d \<and>
            exit_pool inst (pools (fst entry')) conns = (None, pools' (fst entry'), snd entry')"
proof -
  show "p \<in> fst ` set d \<Longrightarrow> \<exists>conns conns'. (p, conns) \<in> set d \<and> (p, conns') \<in> set d' \<and>
            exit_pool inst (pools p) conns = (None, pools' p, conns')"
  proof -
    assume "p \<in> fst ` set d"
    then obtain conns where m: "(p, conns) \<in> set d" by auto
    then obtain i where i: "i < length d" "d ! i = (p, conns)" by (auto simp: in_set_conv_nth)
    with assms have "i < length d'" and
      "fst (d' ! i) = p \<and> exit_pool inst (pools p) conns = (None, pools' p, snd (d' ! i))"
      by (auto simp: list_all2_conv_all_nth)
    then have "(p, snd (d' ! i)) \<in> set d'" "exit_pool inst (pools p) conns = (None, pools' p, snd (d' ! i))"
      by (auto simp: in_set_conv_nth intro!: exI[of _ i] prod_eqI)
    with m show ?thesis by blast
  qed
  show "entry' \<in> set d' \<Longrightarrow> \<exists>conns. (fst entry', conns) \<in> set d \<and>
            exit_pool inst (pools (fst entry')) conns = (None, pools' (fst entry'), snd entry')"
  proof -
    assume "entry' \<in> set d'"
    then obtain i where i: "i < length d'" "d' ! i = entry'" by (auto simp: in_set_conv_nth)
    with assms have l: "i < length d" and
      f: "fst entry' = fst (d ! i)"
         "exit_pool inst (pools (fst (d ! i))) (snd (d ! i)) = (None, pools' (fst (d ! i)), snd entry')"
      by (auto simp: list_all2_conv_all_nth)
    from l have "(fst (d ! i), snd (d ! i)) \<in> set d" by simp
    with f show ?thesis by (intro exI[of _ "snd (d ! i)"]) simp
  qed
qed

lemma drain_popped:
  "drain inst q conns readd = (None, q', conns', readd') \<Longrightarrow>
   \<exists>popped. q = popped @ q' \<and>
            readd' = readd @ filter (\<lambda>c. \<not> inst c) popped \<and>
            conns' = conns - set (filter inst popped) \<and>
            set (filter inst popped) \<subseteq> conns \<and>
            (conns' = {} \<or> q' = []) \<and>
            (popped \<noteq> [] \<longrightarrow> conns - set (filter inst (butlast popped)) \<noteq> {})"
proof (induction inst q conns readd rule: drain.induct)
  case (1 is_instance connections readd_connections)
  then show ?case by (intro exI[of _ "[]"]) auto
next
  case (2 is_instance connection queue connections readd_connections)
  show ?case
  proof (cases "connections = {}")
    case True
    with "2.prems" show ?thesis by (intro exI[of _ "[]"]) auto
  next
    case ne: False
    show ?thesis
    proof (cases "is_instance connection")
      case inst: True
      show ?thesis
      proof (cases "connection \<in> connections")
        case True
        with ne inst "2.prems" have
          "drain is_instance queue (connections - {connection}) readd_connections
             = (None, q', conns', readd')"
          by simp
        from "2.IH"(1)[OF ne inst True this] obtain popped where
          p: "queue = popped @ q'"
             "readd' = readd_connections @ filter (\<lambda>c. \<not> is_instance c) popped"
             "conns' = connections - {connection} - set (filter is_instance popped)"
             "set (filter is_instance popped) \<subseteq> connections - {connection}"
             "conns' = {} \<or> q' = []"
             "popped \<noteq> [] \<longrightarrow>
                connections - {connection} - set (filter is_instance (butlast popped)) \<noteq> {}"
          by blast
        have last: "connections - set (filter is_instance (butlast (connection # popped))) \<noteq> {}"
        proof (cases "popped = []")
          case True
          with ne show ?thesis by simp
        next
          case False
          with p(6) inst show ?thesis by auto
        qed
        show ?thesis
          using p(1-5) inst True last
          by (intro exI[of _ "connection # popped"]) (auto simp del: butlast.simps)
      next
        case False
        with ne inst "2.prems" show ?thesis by simp
      qed
    next
      case ninst: False
      with ne "2.prems" have
        "drain is_instance queue connections (readd_connections @ [connection])
           = (None, q', conns', readd')"
        by simp
      from "2.IH"(2)[OF ne ninst this] obtain popped where
        p: "queue = popped @ q'"
           "readd' = (readd_connections @ [connection]) @ filter (\<lambda>c. \<not> is_instance c) popped"
           "conns' = connections - set (filter is_instance popped)"
           "set (filter is_instance popped) \<subseteq> connections"
           "conns' = {} \<or> q' = []"
           "popped \<noteq> [] \<longrightarrow> connections - set (filter is_instance (butlast popped)) \<noteq> {}"
        by blast
      have last: "connections - set (filter is_instance (butlast (connection # popped))) \<noteq> {}"
      proof (cases "popped = []")
        case True
        with ne show ?thesis by simp
      next
        case False
        with p(6) ninst show ?thesis by auto
      qed
      show ?thesis
        using p(1-5) ninst last
        by (intro exI[of _ "connection # popped"]) (auto simp del: butlast.simps)
    qed
  qed
qed

lemma exit_pool_popped:
  assumes "exit_pool inst p conns = (None, p', conns')" and "pool p = Some q"
  shows "\<exists>popped rest. q = popped @ rest \<and>
           set (filter inst popped) \<subseteq> conns \<and>
           conns' = conns - set (filter inst popped) \<and>
           (conns' = {} \<or> rest = []) \<and>
           (popped \<noteq> [] \<longrightarrow> conns - set (filter inst (butlast popped)) \<noteq> {}) \<and>
           p' = p\<lparr>pool := Some (if lifo p then rev (filter (\<lambda>c. \<not> inst c) popped) @ rest
                                 else rest @ filter (\<lambda>c. \<not> inst c) popped)\<rparr>"
proof -
  obtain e q' c' readd where d: "drain inst q conns [] = (e, q', c', readd)"
    by (cases "drain inst q conns []") auto
  with assms have e: "e = None" and c: "c' = conns'"
    and p': "p' = foldl put_conn (p\<lparr>pool := Some q'\<rparr>) readd"
    by (auto simp: exit_pool_def split: option.splits)
  from drain_popped[OF d[unfolded e]] obtain popped where
    sp: "q = popped @ q'" "readd = filter (\<lambda>c. \<not> inst c) popped"
        "c' = conns - set (filter inst popped)" "set (filter inst popped) \<subseteq> conns"
        "c' = {} \<or> q' = []"
        "popped \<noteq> [] \<longrightarrow> conns - set (filter inst (butlast popped)) \<noteq> {}"
    by auto
  have "p' = p\<lparr>pool := Some (if lifo p then rev readd @ q' else q' @ readd)\<rparr>"
    unfolding p' by (subst foldl_put_conn[where q = q']) simp_all
  with sp c show ?thesis by blast
qed

text \<open>
  C5, as amended. Whenever \<open>__exit__\<close> returns without raising: a pool that has no
  entry in the tracker, and a closed pool, is left exactly as it was. From a tracked open
  pool whose queue is \<open>popped @ rest\<close> it has taken the entries \<open>popped\<close> off the front,
  one at a time while the tracked set was not empty, stopping when the tracked set or the
  queue was exhausted; the instances of the connection class among them were all tracked
  and are gone from the pool and from the tracked set; the other entries of \<open>popped\<close>
  went back through \<open>_put_conn\<close> after the loop, in the order they were taken. So they
  stand behind \<open>rest\<close> on a FIFO queue and, reversed, in front of \<open>rest\<close> on a LIFO
  queue: the entries are kept, their relative order is not.
\<close>

theorem connection_remover_exit_sift:
  assumes "connection_remover_exit isinstance r pools = (None, r', pools')"
    and "distinct (map fst (connection_pool_to_connections r))"
  shows "(p \<notin> fst ` set (connection_pool_to_connections r) \<longrightarrow> pools' p = pools p) \<and>
         (pool (pools p) = None \<longrightarrow> pools' p = pools p) \<and>
         (\<forall>conns q. (p, conns) \<in> set (connection_pool_to_connections r) \<and> pool (pools p) = Some q \<longrightarrow>
            (\<exists>popped rest. q = popped @ rest \<and>
               set (filter (\<lambda>c. isinstance c (connection_class r)) popped) \<subseteq> conns \<and>
               (popped \<noteq> [] \<longrightarrow>
                  conns - set (filter (\<lambda>c. isinstance c (connection_class r)) (butlast popped)) \<noteq> {}) \<and>
               (conns - set (filter (\<lambda>c. isinstance c (connection_class r)) popped) = {} \<or> rest = []) \<and>
               (p, conns - set (filter (\<lambda>c. isinstance c (connection_class r)) popped))
                  \<in> set (connection_pool_to_connections r') \<and>
               pools' p = (pools p)\<lparr>pool := Some
                 (if lifo (pools p)
                  then rev (filter (\<lambda>c. \<not> isinstance c (connection_class r)) popped) @ rest
                  else rest @ filter (\<lambda>c. \<not> isinstance c (connection_class r)) popped)\<rparr>))"
proof -
  let ?inst = "\<lambda>c. isinstance c (connection_class r)"
  note per = connection_remover_exit_pools[OF assms]
  then have frame: "\<And>x. x \<notin> fst ` set (connection_pool_to_connections r) \<Longrightarrow> pools' x = pools x"
    and l2: "list_all2 (\<lambda>entry entry'. fst entry' = fst entry \<and>
             exit_pool ?inst (pools (fst entry)) (snd entry)
               = (None, pools' (fst entry), snd entry'))
           (connection_pool_to_connections r) (connection_pool_to_connections r')"
    by auto
  have untracked: "p \<notin> fst ` set (connection_pool_to_connections r) \<longrightarrow> pools' p = pools p"
    using frame by simp
  have closed: "pools' p = pools p" if c: "pool (pools p) = None"
  proof (cases "p \<in> fst ` set (connection_pool_to_connections r)")
    case False
    then show ?thesis by (rule frame)
  next
    case True
    from exit_pool_of_entry(1)[OF l2 True] obtain conns conns' where
      "exit_pool ?inst (pools p) conns = (None, pools' p, conns')" by blast
    with c show ?thesis by (simp add: exit_pool_def)
  qed
  have tracked: "\<exists>popped rest. q = popped @ rest \<and>
               set (filter ?inst popped) \<subseteq> conns \<and>
               (popped \<noteq> [] \<longrightarrow> conns - set (filter ?inst (butlast popped)) \<noteq> {}) \<and>
               (conns - set (filter ?inst popped) = {} \<or> rest = []) \<and>
               (p, conns - set (filter ?inst popped)) \<in> set (connection_pool_to_connections r') \<and>
               pools' p = (pools p)\<lparr>pool := Some
                 (if lifo (pools p)
                  then rev (filter (\<lambda>c. \<not> ?inst c) popped) @ rest
                  else rest @ filter (\<lambda>c. \<not> ?inst c) popped)\<rparr>"
    if m: "(p, conns) \<in> set (connection_pool_to_connections r)" and q: "pool (pools p) = Some q"
    for conns q
  proof -
    from m have "p \<in> fst ` set (connection_pool_to_connections r)" by force
    from exit_pool_of_entry(1)[OF l2 this] obtain c0 conns' where
      m0: "(p, c0) \<in> set (connection_pool_to_connections r)"
      and m': "(p, conns') \<in> set (connection_pool_to_connections r')"
      and ep: "exit_pool ?inst (pools p) c0 = (None, pools' p, conns')" by blast
    from eq_key_imp_eq_value[OF assms(2) m0 m] have "c0 = conns" .
    with ep have ep': "exit_pool ?inst (pools p) conns = (None, pools' p, conns')" by simp
    from exit_pool_popped[OF ep' q] obtain popped rest where
      "q = popped @ rest" "set (filter ?inst popped) \<subseteq> conns"
      "conns' = conns - set (filter ?inst popped)" "conns' = {} \<or> rest = []"
      "popped \<noteq> [] \<longrightarrow> conns - set (filter ?inst (butlast popped)) \<noteq> {}"
      "pools' p = (pools p)\<lparr>pool := Some
                 (if lifo (pools p)
                  then rev (filter (\<lambda>c. \<not> ?inst c) popped) @ rest
                  else rest @ filter (\<lambda>c. \<not> ?inst c) popped)\<rparr>"
      by blast
    with m' show ?thesis by blast
  qed
  from untracked closed tracked show ?thesis by blast
qed

theorem connection_remover_exit_sift_witness:
  "connection_remover_exit ex_isinstance (ex_remover [(0, {10, 11})])
       (ex_pools(0 := ex_pool [3, 10, 4, 11]))
     = (None, ex_remover [(0, {})],
        (ex_pools(0 := ex_pool [3, 10, 4, 11]))(0 := ex_pool [4, 3])) \<and>
   distinct (map fst (connection_pool_to_connections (ex_remover [(0, {10, 11})]))) \<and>
   ((ex_pools(0 := ex_pool [3, 10, 4, 11]))(0 := ex_pool [4, 3])) 2 = ex_pools 2 \<and>
   \<not> ex_isinstance 3 9 \<and> \<not> ex_isinstance 4 9 \<and> ex_isinstance 10 9 \<and> ex_isinstance 11 9"
proof -
  have h1: "connection_remover_exit ex_isinstance (ex_remover [(0, {10, 11})])
       (ex_pools(0 := ex_pool [3, 10, 4, 11]))
     = (None, ex_remover [(0, {})],
        (ex_pools(0 := ex_pool [3, 10, 4, 11]))(0 := ex_pool [4, 3]))"
    by (simp add: connection_remover_exit_def exit_pool_def put_conn_def ex_remover_def
        ex_pool_def ex_isinstance_def)
  have h2: "distinct (map fst (connection_pool_to_connections (ex_remover [(0, {10, 11})])))"
    by (simp add: ex_remover_def)
  show ?thesis
    using h1 h2 connection_remover_exit_sift [OF h1 h2, of 2]
      connection_remover_exit_sift [OF h1 h2, of 0]
    by (simp add: ex_isinstance_def ex_remover_def)
qed

text \<open>
  C5, as stated, fails on the order. On a LIFO queue (urllib3's) the kept entries 3 and
  4 come back as 4, 3. On a FIFO queue the kept entry 3 was in front of the untouched
  entry 5 and is behind it afterwards. Nothing is raised in either run.
\<close>

theorem connection_remover_exit_reorders:
  "connection_remover_exit ex_isinstance (ex_remover [(0, {10, 11})])
       (ex_pools(0 := ex_pool [3, 10, 4, 11]))
     = (None, ex_remover [(0, {})],
        (ex_pools(0 := ex_pool [3, 10, 4, 11]))(0 := ex_pool [4, 3])) \<and>
   lifo (ex_pool [3, 10, 4, 11]) \<and>
   \<not> ex_isinstance 3 9 \<and> \<not> ex_isinstance 4 9 \<and>
   connection_remover_exit ex_isinstance (ex_remover [(0, {10})])
       (ex_pools(0 := ex_fifo_pool [3, 10, 5]))
     = (None, ex_remover [(0, {})],
        (ex_pools(0 := ex_fifo_pool [3, 10, 5]))(0 := ex_fifo_pool [5, 3])) \<and>
   \<not> lifo (ex_fifo_pool [3, 10, 5]) \<and> \<not> ex_isinstance 5 9"
  by (simp add: connection_remover_exit_def exit_pool_def put_conn_def ex_remover_def
      ex_pool_def ex_fifo_pool_def ex_isinstance_def)

text \<open>
  When every tracked pool is covered by its tracked set (an empty, a drained and a closed
  pool always are), \<open>__exit__\<close> raises nothing, every pool keeps exactly the entries that
  are not instances of the connection class, and for each tracked pool the tracked set is
  empty or no instance of the class is left in the queue.
\<close>

lemma connection_remover_exit_no_error:
  assumes "distinct (map fst (connection_pool_to_connections r))"
    and "\<forall>entry \<in> set (connection_pool_to_connections r).
           covered (\<lambda>c. isinstance c (connection_class r)) (pools (fst entry)) (snd entry)"
  shows "\<exists>r' pools'. connection_remover_exit isinstance r pools = (None, r', pools') \<and>
           (\<forall>p. map_option (\<lambda>q. mset (filter (\<lambda>c. \<not> isinstance c (connection_class r)) q))
                   (pool (pools' p))
               = map_option (\<lambda>q. mset (filter (\<lambda>c. \<not> isinstance c (connection_class r)) q))
                   (pool (pools p))) \<and>
           (\<forall>entry' \<in> set (connection_pool_to_connections r').
              snd entry' = {} \<or>
              (\<forall>q. pool (pools' (fst entry')) = Some q \<longrightarrow>
                   filter (\<lambda>c. isinstance c (connection_class r)) q = []))"
proof -
  let ?inst = "\<lambda>c. isinstance c (connection_class r)"
  from exit_items_no_error[OF assms] have
    ne: "fst (exit_items ?inst (connection_pool_to_connections r) pools) = None" .
  obtain r' pools' where ex: "connection_remover_exit isinstance r pools = (None, r', pools')"
    using ne
    by (cases "exit_items ?inst (connection_pool_to_connections r) pools")
       (auto simp: connection_remover_exit_def)
  note per = connection_remover_exit_pools[OF ex assms(1)]
  then have l2: "list_all2 (\<lambda>entry entry'. fst entry' = fst entry \<and>
             exit_pool ?inst (pools (fst entry)) (snd entry)
               = (None, pools' (fst entry), snd entry'))
           (connection_pool_to_connections r) (connection_pool_to_connections r')" by simp
  have kept: "map_option (\<lambda>q. mset (filter (\<lambda>c. \<not> ?inst c) q)) (pool (pools' p))
               = map_option (\<lambda>q. mset (filter (\<lambda>c. \<not> ?inst c) q)) (pool (pools p))" for p
  proof (cases "p \<in> fst ` set (connection_pool_to_connections r)")
    case False
    with per show ?thesis by simp
  next
    case True
    from exit_pool_of_entry(1)[OF l2 True] obtain conns conns' where
      "exit_pool ?inst (pools p) conns = (None, pools' p, conns')" by blast
    from exit_pool_ok[OF this] show ?thesis
      by (cases "pool (pools p)") (auto simp: filter_filter_mset)
  qed
  have stop: "snd entry' = {} \<or> (\<forall>q. pool (pools' (fst entry')) = Some q \<longrightarrow> filter ?inst q = [])"
    if "entry' \<in> set (connection_pool_to_connections r')" for entry'
  proof -
    from exit_pool_of_entry(2)[OF l2 that] obtain conns where
      "exit_pool ?inst (pools (fst entry')) conns = (None, pools' (fst entry'), snd entry')"
      by blast
    from exit_pool_ok[OF this] show ?thesis
      by (cases "pool (pools (fst entry'))") auto
  qed
  from ex kept stop show ?thesis by blast
qed

lemma connection_remover_exit_no_error_covered_pools:
  "distinct (map fst (connection_pool_to_connections (ex_remover [(0, {10}), (1, {11}), (2, {13})]))) \<and>
   covered (\<lambda>c. ex_isinstance c 9) (ex_pools 0) {10} \<and>
   covered (\<lambda>c. ex_isinstance c 9) (ex_pools 1) {11} \<and>
   covered (\<lambda>c. ex_isinstance c 9) (ex_pools 2) {13} \<and>
   connection_remover_exit ex_isinstance (ex_remover [(0, {10}), (1, {11}), (2, {13})]) ex_pools
     = (None, ex_remover [(0, {10}), (1, {11}), (2, {})],
        ex_pools(0 := ex_pool [], 1 := ex_closed_pool, 2 := ex_pool [3, 4]))"
proof -
  let ?r = "ex_remover [(0, {10}), (1, {11}), (2, {13})]"
  have h1: "distinct (map fst (connection_pool_to_connections ?r))"
    by (simp add: ex_remover_def)
  have c0: "covered (\<lambda>c. ex_isinstance c 9) (ex_pools 0) {10}"
    and c1: "covered (\<lambda>c. ex_isinstance c 9) (ex_pools 1) {11}"
    and c2: "covered (\<lambda>c. ex_isinstance c 9) (ex_pools 2) {13}"
    by (simp_all add: covered_def ex_pools_def ex_pool_def ex_closed_pool_def ex_isinstance_def)
  have h2: "\<forall>entry \<in> set (connection_pool_to_connections ?r).
           covered (\<lambda>c. ex_isinstance c (connection_class ?r)) (ex_pools (fst entry)) (snd entry)"
    using c0 c1 c2 by (simp add: ex_remover_def)
  have run: "connection_remover_exit ex_isinstance ?r ex_pools
     = (None, ex_remover [(0, {10}), (1, {11}), (2, {})],
        ex_pools(0 := ex_pool [], 1 := ex_closed_pool, 2 := ex_pool [3, 4]))"
    by (simp add: connection_remover_exit_def exit_pool_def put_conn_def ex_remover_def
        ex_pools_def ex_pool_def ex_closed_pool_def ex_isinstance_def)
  show ?thesis
    using h1 c0 c1 c2 run connection_remover_exit_no_error
        [where isinstance = ex_isinstance and r = "?r" and pools = ex_pools, OF h1 h2]
    by simp
qed


text \<open>
  The same error, one entry later: entry 3, not an instance, has been set aside when the
  error is raised, so it is never put back and the pool is left empty.
\<close>

lemma connection_remover_exit_loses_set_aside:
  "fst (connection_remover_exit ex_isinstance (ex_remover [(0, {10})])
         (ex_pools(0 := ex_pool [3, 12])))
     = Some KeyError \<and>
   snd (snd (connection_remover_exit ex_isinstance (ex_remover [(0, {10})])
         (ex_pools(0 := ex_pool [3, 12])))) 0
     = ex_pool [] \<and>
   \<not> ex_isinstance 3 9"
  by (simp add: connection_remover_exit_def exit_pool_def put_conn_def ex_remover_def
      ex_pool_def ex_isinstance_def)

lemma setdefault_add_entries:
  "entry \<in> set (setdefault_add key c d) \<Longrightarrow>
   snd entry = {c} \<or> (\<exists>old \<in> set d. snd entry \<subseteq> insert c (snd old))"
  by (induction key c d rule: setdefault_add.induct) (auto split: if_splits)

lemma getitem_remove_entries:
  "getitem_remove key c d = Inr d' \<Longrightarrow> entry \<in> set d' \<Longrightarrow> \<exists>old \<in> set d. snd entry \<subseteq> snd old"
proof (induction key c d arbitrary: d' rule: getitem_remove.induct)
  case (1 key connection)
  then show ?case by simp
next
  case (2 key connection k connections rest)
  then show ?case by (fastforce split: if_splits sum.splits)
qed

text \<open>
  C10. \<open>add_connection_to_pool_entry\<close> with a connection that is not an instance of the
  remover's class returns the remover unchanged; a new remover tracks nothing; and every
  operation (\<open>add_connection_to_pool_entry\<close>, \<open>__enter__\<close>,
  \<open>remove_connection_to_pool_entry\<close> when it returns, \<open>__exit__\<close> whether it raises or
  not) leaves a tracker that holds only instances of the class holding only instances.
\<close>

theorem tracked_only_instances:
  "(\<not> isinstance c (connection_class r) \<longrightarrow> add_connection_to_pool_entry isinstance r p c = r) \<and>
   tracked_ok isinstance (connection_remover_init cls) \<and>
   (tracked_ok isinstance r \<longrightarrow>
      tracked_ok isinstance (add_connection_to_pool_entry isinstance r p c) \<and>
      tracked_ok isinstance (connection_remover_enter r) \<and>
      (\<forall>r'. remove_connection_to_pool_entry isinstance r p c = Inr r' \<longrightarrow> tracked_ok isinstance r') \<and>
      tracked_ok isinstance (fst (snd (connection_remover_exit isinstance r pools))))"
proof (intro conjI impI allI)
  show "\<not> isinstance c (connection_class r) \<Longrightarrow> add_connection_to_pool_entry isinstance r p c = r"
    by (simp add: add_connection_to_pool_entry_def)
  show "tracked_ok isinstance (connection_remover_init cls)"
    by (simp add: tracked_ok_def connection_remover_init_def)
next
  assume ok: "tracked_ok isinstance r"
  show "tracked_ok isinstance (add_connection_to_pool_entry isinstance r p c)"
  proof (cases "isinstance c (connection_class r)")
    case False
    with ok show ?thesis by (simp add: add_connection_to_pool_entry_def)
  next
    case True
    with ok show ?thesis
      by (auto simp: add_connection_to_pool_entry_def tracked_ok_def
          dest!: setdefault_add_entries)
  qed
  show "tracked_ok isinstance (connection_remover_enter r)"
    using ok by (simp add: connection_remover_enter_def)
  show "tracked_ok isinstance r'" if "remove_connection_to_pool_entry isinstance r p c = Inr r'" for r'
    using that ok
    by (auto simp: remove_connection_to_pool_entry_def tracked_ok_def
        split: if_splits sum.splits dest!: getitem_remove_entries)
  show "tracked_ok isinstance (fst (snd (connection_remover_exit isinstance r pools)))"
  proof -
    let ?inst = "\<lambda>c. isinstance c (connection_class r)"
    obtain e d' ps where ei:
      "exit_items ?inst (connection_pool_to_connections r) pools = (e, d', ps)"
      by (cases "exit_items ?inst (connection_pool_to_connections r) pools") auto
    have "\<exists>old \<in> set (connection_pool_to_connections r). snd entry' \<subseteq> snd old"
      if "entry' \<in> set d'" for entry'
    proof -
      from that obtain i where "i < length d'" "d' ! i = entry'" by (auto simp: in_set_conv_nth)
      with exit_items_subset[OF ei] have
        "i < length (connection_pool_to_connections r)"
        "snd entry' \<subseteq> snd (connection_pool_to_connections r ! i)"
        by (auto simp: list_all2_conv_all_nth)
      then show ?thesis by (auto intro!: bexI[of _ "connection_pool_to_connections r ! i"])
    qed
    with ok ei show ?thesis
      by (fastforce simp: connection_remover_exit_def tracked_ok_def)
  qed
qed
theorem tracked_only_instances_witness:
  "\<not> ex_isinstance 3 9 \<and>
   add_connection_to_pool_entry ex_isinstance (ex_remover [(0, {10})]) 0 3 = ex_remover [(0, {10})] \<and>
   tracked_ok ex_isinstance (ex_remover [(0, {10})]) \<and>
   tracked_ok ex_isinstance (add_connection_to_pool_entry ex_isinstance (ex_remover [(0, {10})]) 0 3) \<and>
   tracked_ok ex_isinstance
     (fst (snd (connection_remover_exit ex_isinstance (ex_remover [(0, {10})]) ex_pools)))"
proof -
  have h1: "\<not> ex_isinstance 3 (connection_class (ex_remover [(0, {10})]))"
    by (simp add: ex_isinstance_def ex_remover_def)
  have h2: "tracked_ok ex_isinstance (ex_remover [(0, {10})])"
    by (simp add: tracked_ok_def ex_isinstance_def ex_remover_def)
  show ?thesis
    using h1 h2 tracked_only_instances [of ex_isinstance 3 "ex_remover [(0, {10})]" 0 9 ex_pools]
    by (simp add: ex_remover_def)
qed


section \<open>The acquire wrapper\<close>

lemma patched_get_conn_loop_drains:
  assumes "pool p = Some queue"
    and "\<forall>c \<in> set queue. \<not> is_instance c"
    and "\<not> is_instance connection"
    and "is_instance (new_conn (p\<lparr>pool := Some []\<rparr>))"
  shows "patched_get_conn_loop (get_conn new_conn) is_instance connection p calls
           = Some (Inr (new_conn (p\<lparr>pool := Some []\<rparr>), p\<lparr>pool := Some []\<rparr>,
                        calls + length queue + 1))"
  using assms
proof (induction queue arbitrary: p connection calls)
  case Nil
  then have p: "p\<lparr>pool := Some []\<rparr> = p" by simp
  have "patched_get_conn_loop (get_conn new_conn) is_instance connection p calls
          = Some (Inr (new_conn p, p, calls + 1))"
    apply (subst patched_get_conn_loop.simps)
    apply (subst patched_get_conn_loop.simps)
    using Nil p by (simp add: get_conn_def)
  then show ?case unfolding p by simp
next
  case (Cons c queue)
  let ?p = "p\<lparr>pool := Some queue\<rparr>"
  have a: "pool ?p = Some queue" by simp
  have b: "\<forall>c \<in> set queue. \<not> is_instance c" using Cons.prems(2) by simp
  have c: "\<not> is_instance c" using Cons.prems(2) by simp
  have d: "?p\<lparr>pool := Some []\<rparr> = p\<lparr>pool := Some []\<rparr>" by simp
  have e: "is_instance (new_conn (?p\<lparr>pool := Some []\<rparr>))" using Cons.prems(4) d by simp
  have step: "patched_get_conn_loop (get_conn new_conn) is_instance connection p calls
        = patched_get_conn_loop (get_conn new_conn) is_instance c ?p (Suc calls)"
    apply (subst patched_get_conn_loop.simps)
    using Cons.prems(1,3) by (simp add: get_conn_def)
  show ?case
    unfolding step using Cons.IH[OF a b c e, of "Suc calls"] d by simp
qed

text \<open>
  C4. A pool whose queue holds K entries, none an instance of the expected connection
  class (\<open>pool.ConnectionCls\<close>, or what \<open>connection_class_getter\<close> returns when the pool
  has no such attribute), and whose creation primitive always yields an instance:
  \<open>patched_get_conn\<close> returns, the connection it returns is an instance of the expected
  class, and the pool's original \<open>get_conn\<close> has been called at most K + 1 times.
\<close>

theorem patched_get_conn_terminates:
  assumes "pool p = Some queue"
    and "\<forall>c \<in> set queue.
           \<not> isinstance c (case ConnectionCls p of Some cls \<Rightarrow> cls | None \<Rightarrow> connection_class_getter)"
    and "\<forall>p'. isinstance (new_conn p')
                 (case ConnectionCls p of Some cls \<Rightarrow> cls | None \<Rightarrow> connection_class_getter)"
  shows "\<exists>connection p' calls.
           patched_get_conn (get_conn new_conn) isinstance connection_class_getter p
             = Some (Inr (connection, p', calls)) \<and>
           isinstance connection
             (case ConnectionCls p of Some cls \<Rightarrow> cls | None \<Rightarrow> connection_class_getter) \<and>
           calls \<le> length queue + 1"
proof -
  let ?cls = "case ConnectionCls p of Some cls \<Rightarrow> cls | None \<Rightarrow> connection_class_getter"
  let ?inst = "\<lambda>c. isinstance c ?cls"
  show ?thesis
  proof (cases queue)
    case Nil
    have "patched_get_conn (get_conn new_conn) isinstance connection_class_getter p
            = Some (Inr (new_conn p, p, 1))"
      using assms(1,3) Nil
      apply (simp add: patched_get_conn_def get_conn_def)
      apply (subst patched_get_conn_loop.simps)
      by simp
    with assms(3) Nil show ?thesis by simp
  next
    case (Cons c rest)
    let ?p = "p\<lparr>pool := Some rest\<rparr>"
    have first: "get_conn new_conn p = Inr (c, ?p)"
      using assms(1) Cons by (simp add: get_conn_def)
    have cls: "ConnectionCls ?p = ConnectionCls p" by simp
    have "patched_get_conn_loop (get_conn new_conn) ?inst c ?p 1
           = Some (Inr (new_conn (?p\<lparr>pool := Some []\<rparr>), ?p\<lparr>pool := Some []\<rparr>,
                        1 + length rest + 1))"
      using assms(2,3) Cons by (intro patched_get_conn_loop_drains) simp_all
    then have "patched_get_conn (get_conn new_conn) isinstance connection_class_getter p
           = Some (Inr (new_conn (?p\<lparr>pool := Some []\<rparr>), ?p\<lparr>pool := Some []\<rparr>,
                        1 + length rest + 1))"
      using first by (simp add: patched_get_conn_def)
    with assms(3) Cons show ?thesis by simp
  qed
qed

theorem patched_get_conn_terminates_witness:
  "pool (ex_pool [3, 4]) = Some [3, 4] \<and> \<not> ex_isinstance 3 9 \<and> \<not> ex_isinstance 4 9 \<and>
   ex_isinstance 10 9 \<and>
   (\<exists>connection p' calls.
      patched_get_conn (get_conn (\<lambda>p. 10)) ex_isinstance 8 (ex_pool [3, 4])
        = Some (Inr (connection, p', calls)) \<and>
      ex_isinstance connection 9 \<and> calls \<le> 3)"
proof -
  have h1: "pool (ex_pool [3, 4]) = Some [3, 4]" by (simp add: ex_pool_def)
  have h2: "\<forall>c \<in> set [3, 4].
           \<not> ex_isinstance c (case ConnectionCls (ex_pool [3, 4]) of Some cls \<Rightarrow> cls | None \<Rightarrow> 8)"
    by (simp add: ex_pool_def ex_isinstance_def)
  have h3: "\<forall>p'. ex_isinstance ((\<lambda>p. 10) p')
                 (case ConnectionCls (ex_pool [3, 4]) of Some cls \<Rightarrow> cls | None \<Rightarrow> 8)"
    by (simp add: ex_pool_def ex_isinstance_def)
  show ?thesis
    using h1 patched_get_conn_terminates [where new_conn = "\<lambda>p. 10" and isinstance = ex_isinstance
        and connection_class_getter = 8 and p = "ex_pool [3, 4]" and queue = "[3, 4]",
        OF h1 h2 h3]
    by (simp add: ex_pool_def ex_isinstance_def numeral_3_eq_3)
qed

section \<open>Building patchers\<close>

lemma grows_refl: "grows h h"
  by (simp add: grows_def)

lemma grows_trans: "grows h h' \<Longrightarrow> grows h' h'' \<Longrightarrow> grows h h''"
  by (auto simp: grows_def)

lemma grows_alloc: "obj_cassette obj \<noteq> PyNone \<Longrightarrow> grows h (snd (alloc h obj))"
  by (simp add: grows_def alloc_def)

lemma grows_cassette_attr:
  assumes "grows h h'"
  shows "cassette_attr h' r = PyNone \<longleftrightarrow> cassette_attr h r = PyNone"
    and "cassette_attr h r = PyNone \<Longrightarrow> class_at h' r = class_at h r"
  using assms
  by (auto simp: grows_def cassette_attr_def class_at_def nth_append split: if_splits)

lemma grows_class_values:
  assumes "grows h h'"
  shows "class_values h v \<Longrightarrow> class_values h' v"
proof (induction v)
  case (Ref r)
  then show ?case using grows_cassette_attr[OF assms, of r] by auto
next
  case (DictV items)
  then show ?case by (fastforce simp: snds.simps)
qed simp_all

lemma get_cassette_subclass_grows:
  "get_cassette_subclass b h klass = Inr (r, b', h') \<Longrightarrow> grows h h'"
  using get_cassette_subclass_step(1)[of b h klass r b' h'] by (auto simp: grows_def)

lemma get_cassette_subclass_total:
  assumes "cassette_attr h klass \<noteq> Absent" "cassette_attr h klass = PyNone \<longrightarrow> class_at h klass"
  shows "\<exists>r b' h'. get_cassette_subclass b h klass = Inr (r, b', h')"
  using assms
  by (auto simp: get_cassette_subclass_def build_cassette_subclass_def alloc_def
      split: attr.splits option.splits)

lemma recursively_apply_total:
  "class_values h v \<Longrightarrow>
     \<exists>v' b' h'. recursively_apply_get_cassette_subclass b h v = Inr (v', b', h') \<and> grows h h'"
  "(\<forall>x \<in> set items. class_values h (snd x)) \<Longrightarrow>
     \<exists>items' b' h'. recursively_apply_items b h items = Inr (items', b', h') \<and> grows h h'"
proof (induction b h v and b h items
    rule: recursively_apply_get_cassette_subclass_recursively_apply_items.induct)
  case (1 b h items)
  then show ?case by auto
next
  case (2 b h r)
  show ?case
  proof (cases "cassette_attr h r = Absent")
    case True
    then show ?thesis by (simp add: grows_refl)
  next
    case False
    with 2 get_cassette_subclass_total[of h r b] obtain r' b' h' where
      g: "get_cassette_subclass b h r = Inr (r', b', h')" by auto
    with False get_cassette_subclass_grows[OF g] show ?thesis by simp
  qed
next
  case (3 b h f c)
  then show ?case by (simp add: grows_refl)
next
  case (4 b h v)
  then show ?case by (simp add: grows_refl)
next
  case (5 b h)
  then show ?case by (simp add: grows_refl)
next
  case (6 b h key replacement_obj rest)
  from 6(1) 6(3) obtain v' b' h' where
    f: "recursively_apply_get_cassette_subclass b h replacement_obj = Inr (v', b', h')"
    and g1: "grows h h'" by auto
  have "\<forall>x \<in> set rest. class_values h' (snd x)"
    using 6(3) grows_class_values[OF g1] by simp
  from 6(2)[OF f refl refl this] obtain rest' b'' h'' where
    r: "recursively_apply_items b' h' rest = Inr (rest', b'', h'')" and g2: "grows h' h''"
    by auto
  from f r grows_trans[OF g1 g2] show ?case by simp
qed

lemma recursively_apply_grows:
  "recursively_apply_get_cassette_subclass b h v = Inr (v', b', h') \<Longrightarrow> grows h h'"
  "recursively_apply_items b h items = Inr (items', b', h') \<Longrightarrow> grows h h'"
proof (induction b h v and b h items arbitrary: v' b' h' and items' b' h'
    rule: recursively_apply_get_cassette_subclass_recursively_apply_items.induct)
  case (1 b h items)
  then show ?case by (auto split: sum.splits)
next
  case (2 b h r)
  then show ?case
    by (auto split: if_splits sum.splits simp: grows_refl dest: get_cassette_subclass_grows)
next
  case (6 b h key replacement_obj rest)
  from 6(3) obtain v1 b1 h1 rest1 where
    f: "recursively_apply_get_cassette_subclass b h replacement_obj = Inr (v1, b1, h1)"
    and r: "recursively_apply_items b1 h1 rest = Inr (rest1, b', h')"
    by (auto split: sum.splits)
  from 6(1)[OF f] 6(2)[OF f refl refl r] show ?case by (rule grows_trans)
qed (simp_all add: grows_refl)

lemma build_patcher_grows:
  "build_patcher has b h t = Inr (p, b', h') \<Longrightarrow> grows h h'"
  by (auto simp: build_patcher_def grows_refl split: prod.splits if_splits sum.splits
      dest: recursively_apply_grows(1))

lemma build_patcher_seam:
  "build_patcher has b h t = Inr (p, b', h') \<Longrightarrow>
   (case p of None \<Rightarrow> \<not> has (fst t) (fst (snd t))
            | Some q \<Rightarrow> has (fst t) (fst (snd t)) \<and> seam_of q = triple_seam t)"
  by (auto simp: build_patcher_def seam_of_def triple_seam_def
      split: prod.splits if_splits sum.splits)

lemma build_patcher_total:
  assumes "has (fst t) (fst (snd t)) \<longrightarrow> class_values h (snd (snd t))"
  shows "\<exists>p b' h'. build_patcher has b h t = Inr (p, b', h')"
proof (cases "has (fst t) (fst (snd t))")
  case False
  then show ?thesis by (auto simp: build_patcher_def split: prod.splits)
next
  case True
  with assms recursively_apply_total(1)[of h "snd (snd t)" b] obtain v' b' h' where
    "recursively_apply_get_cassette_subclass b h (snd (snd t)) = Inr (v', b', h')" by auto
  with True show ?thesis by (auto simp: build_patcher_def split: prod.splits)
qed

lemma build_patchers_seams:
  "build_patchers_from_mock_triples has b h triples = Inr (ps, b', h') \<Longrightarrow>
   map seam_of ps = present_seams has (map triple_seam triples) \<and> grows h h'"
proof (induction triples arbitrary: b h ps b' h')
  case Nil
  then show ?case by (simp add: present_seams_def grows_refl)
next
  case (Cons t triples)
  from Cons.prems obtain p b1 h1 ps1 where
    f: "build_patcher has b h t = Inr (p, b1, h1)"
    and r: "build_patchers_from_mock_triples has b1 h1 triples = Inr (ps1, b', h')"
    and ps: "ps = (case p of None \<Rightarrow> ps1 | Some q \<Rightarrow> q # ps1)"
    by (auto split: sum.splits)
  from Cons.IH[OF r] have ih: "map seam_of ps1 = present_seams has (map triple_seam triples)"
    and g2: "grows h1 h'" by auto
  from build_patcher_seam[OF f] ps ih have
    "map seam_of ps = present_seams has (map triple_seam (t # triples))"
    by (auto simp: present_seams_def triple_seam_def split: option.splits)
  with grows_trans[OF build_patcher_grows[OF f] g2] show ?case by simp
qed

lemma build_patchers_total:
  "\<forall>t \<in> set triples. has (fst t) (fst (snd t)) \<longrightarrow> class_values h (snd (snd t)) \<Longrightarrow>
   \<exists>ps b' h'. build_patchers_from_mock_triples has b h triples = Inr (ps, b', h')"
proof (induction triples arbitrary: b h)
  case Nil
  then show ?case by simp
next
  case (Cons t triples)
  from Cons.prems build_patcher_total[of has t h b] obtain p b1 h1 where
    f: "build_patcher has b h t = Inr (p, b1, h1)" by auto
  have "\<forall>t \<in> set triples. has (fst t) (fst (snd t)) \<longrightarrow> class_values h1 (snd (snd t))"
    using Cons.prems grows_class_values[OF build_patcher_grows[OF f]] by auto
  from Cons.IH[OF this, of b1] obtain ps b' h' where
    "build_patchers_from_mock_triples has b1 h1 triples = Inr (ps, b', h')" by blast
  with f show ?case by simp
qed

text \<open>
  C3, as amended. For every triple, \<open>_build_patcher\<close> returns \<open>None\<close>, raises nothing
  and changes nothing when the target lacks the attribute. Of two triples of which
  exactly one names an attribute its target has (given in either order),
  \<open>_build_patchers_from_mock_triples\<close> yields exactly one patcher, the one for the
  attribute that exists, provided the replacement of that triple is well formed: every
  value in it whose \<open>cassette\<close> is \<open>None\<close> is a class. The replacement of the other
  triple is never looked at.
\<close>

theorem build_patcher_silent_skip:
  "(\<not> has obj a \<longrightarrow> build_patcher has b h (obj, a, replacement) = Inr (None, b, h)) \<and>
   (\<not> has obj a \<and> has obj' a' \<and> class_values h replacement' \<longrightarrow>
      (\<exists>p b' h'. build_patchers_from_mock_triples has b h
                    [(obj, a, replacement), (obj', a', replacement')] = Inr ([p], b', h') \<and>
                  seam_of p = (obj', a')) \<and>
      (\<exists>p b' h'. build_patchers_from_mock_triples has b h
                    [(obj', a', replacement'), (obj, a, replacement)] = Inr ([p], b', h') \<and>
                  seam_of p = (obj', a')))"
proof (intro conjI impI)
  show "\<not> has obj a \<Longrightarrow> build_patcher has b h (obj, a, replacement) = Inr (None, b, h)"
    by (simp add: build_patcher_def)
next
  assume a: "\<not> has obj a \<and> has obj' a' \<and> class_values h replacement'"
  then obtain v' b' h' where
    r: "recursively_apply_get_cassette_subclass b h replacement' = Inr (v', b', h')"
    using recursively_apply_total(1)[of h replacement' b] by auto
  let ?p = "\<lparr>p_target = obj', p_attribute = a', p_new = v'\<rparr>"
  have "build_patchers_from_mock_triples has b h
          [(obj, a, replacement), (obj', a', replacement')] = Inr ([?p], b', h')"
    using a r by (simp add: build_patcher_def)
  moreover have "build_patchers_from_mock_triples has b h
          [(obj', a', replacement'), (obj, a, replacement)] = Inr ([?p], b', h')"
    using a r by (simp add: build_patcher_def)
  moreover have "seam_of ?p = (obj', a')" by (simp add: seam_of_def)
  ultimately show
    "\<exists>p b' h'. build_patchers_from_mock_triples has b h
                    [(obj, a, replacement), (obj', a', replacement')] = Inr ([p], b', h') \<and>
                  seam_of p = (obj', a')"
    "\<exists>p b' h'. build_patchers_from_mock_triples has b h
                    [(obj', a', replacement'), (obj, a, replacement)] = Inr ([p], b', h') \<and>
                  seam_of p = (obj', a')"
    by blast+
qed

theorem build_patcher_silent_skip_witness:
  "\<not> ex_hasattr (OtherTarget 7) ''missing'' \<and> ex_hasattr httplib ''HTTPConnection'' \<and>
   class_values [ex_stub] (Ref 0) \<and>
   build_patcher ex_hasattr (builder_init ex_cassette) [ex_stub] (OtherTarget 7, ''missing'', Ref 5)
     = Inr (None, builder_init ex_cassette, [ex_stub]) \<and>
   build_patchers_from_mock_triples ex_hasattr (builder_init ex_cassette) [ex_stub]
       [(OtherTarget 7, ''missing'', Ref 5), (httplib, ''HTTPConnection'', Ref 0)]
     = Inr ([\<lparr>p_target = httplib, p_attribute = ''HTTPConnection'', p_new = Ref 1\<rparr>],
            \<lparr>b_cassette = ex_cassette, class_to_cassette_subclass = [0 \<mapsto> 1]\<rparr>,
            [ex_stub, ex_substitute])"
proof -
  have h1: "\<not> ex_hasattr (OtherTarget 7) ''missing''" by (simp add: ex_hasattr_def)
  have h2: "\<not> ex_hasattr (OtherTarget 7) ''missing'' \<and> ex_hasattr httplib ''HTTPConnection'' \<and>
            class_values [ex_stub] (Ref 0)"
    by (simp add: ex_hasattr_def cassette_attr_def class_at_def ex_stub_def)
  have run: "build_patchers_from_mock_triples ex_hasattr (builder_init ex_cassette) [ex_stub]
       [(OtherTarget 7, ''missing'', Ref 5), (httplib, ''HTTPConnection'', Ref 0)]
     = Inr ([\<lparr>p_target = httplib, p_attribute = ''HTTPConnection'', p_new = Ref 1\<rparr>],
            \<lparr>b_cassette = ex_cassette, class_to_cassette_subclass = [0 \<mapsto> 1]\<rparr>,
            [ex_stub, ex_substitute])"
    by (simp add: build_patcher_def get_cassette_subclass_def build_cassette_subclass_def
        alloc_def class_at_def cassette_attr_def builder_init_def ex_hasattr_def ex_stub_def
        ex_substitute_def ex_cassette_def)
  show ?thesis
    using h2 run
      build_patcher_silent_skip [where has = ex_hasattr and obj = "OtherTarget 7"
        and a = "''missing''" and obj' = httplib and a' = "''HTTPConnection''"
        and h = "[ex_stub]" and replacement = "Ref 5" and replacement' = "Ref 0"
        and b = "builder_init ex_cassette"]
    by simp
qed

text \<open>
  C3, as stated, fails: the triple whose attribute exists carries a replacement that is
  not a class and whose \<open>cassette\<close> is \<open>None\<close>. \<open>_build_cassette_subclass\<close> raises
  TypeError (\<open>issubclass\<close> of an object that is not a class), and no patcher is yielded.
\<close>

theorem build_patchers_non_class_raises:
  "build_patchers_from_mock_triples ex_hasattr (builder_init ex_cassette) [ex_stub, ex_instance]
       [(OtherTarget 7, ''missing'', Ref 5), (httplib, ''HTTPConnection'', Ref 1)]
     = Inl TypeError \<and>
   ex_hasattr httplib ''HTTPConnection'' \<and> \<not> ex_hasattr (OtherTarget 7) ''missing'' \<and>
   cassette_attr [ex_stub, ex_instance] 1 = PyNone \<and> \<not> class_at [ex_stub, ex_instance] 1"
  by (simp add: build_patcher_def get_cassette_subclass_def build_cassette_subclass_def
      class_at_def cassette_attr_def builder_init_def ex_hasattr_def ex_instance_def)

lemma chain_link_Inr:
  assumes "chain_link e ts tail so_far = Inr (rs, b', h')"
  shows "\<exists>ys b0 h0 ps. so_far = Inr (ys, b0, h0) \<and> rs = ys @ map Patcher ps @ tail \<and>
           map seam_of ps = present_seams (hasattr e) (map triple_seam ts) \<and> grows h0 h'"
proof -
  from assms obtain ys b0 h0 where s: "so_far = Inr (ys, b0, h0)"
    by (auto simp: chain_link_def split: sum.splits)
  with assms obtain ps where
    p: "build_patchers_from_mock_triples (hasattr e) b0 h0 ts = Inr (ps, b', h')"
    and r: "rs = ys @ map Patcher ps @ tail"
    by (auto simp: chain_link_def split: sum.splits)
  from build_patchers_seams[OF p] s r show ?thesis by auto
qed

lemma urllib3_patchers_Inr:
  assumes "urllib3_patchers e hc b h s1 s2 = Inr (ts, rms, b', h')"
  shows "map triple_seam ts = urllib3_patchers_seams \<and> (\<exists>r1 r2. rms = [r1, r2]) \<and> grows h h'"
proof -
  from assms obtain c1 b1 h1 c2 h2 where
    g1: "get_cassette_subclass b h s1 = Inr (c1, b1, h1)"
    and g2: "get_cassette_subclass b1 h1 s2 = Inr (c2, b', h2)"
    and h': "h' = snd (alloc h2 mock_obj)"
    by (auto simp: urllib3_patchers_def split: sum.splits prod.splits if_splits)
  have "grows h2 h'" unfolding h' by (rule grows_alloc) (simp add: mock_obj_def)
  with get_cassette_subclass_grows[OF g1] get_cassette_subclass_grows[OF g2]
  have "grows h h'" by (blast intro: grows_trans)
  moreover from assms have "map triple_seam ts = urllib3_patchers_seams" "\<exists>r1 r2. rms = [r1, r2]"
    by (auto simp: urllib3_patchers_def urllib3_patchers_seams_def triple_seam_def
        split: sum.splits prod.splits if_splits)
  ultimately show ?thesis by simp
qed

lemma resource_seam_Patcher: "map resource_seam (map Patcher ps) = map Some (map seam_of ps)"
  by (induction ps) simp_all

lemma resource_seam_Remover: "map resource_seam (map Remover rms) = map (\<lambda>_. None) rms"
  by (induction rms) simp_all

lemma pool_adapter_seams:
  assumes "requests_adapter e b h = Inr (ts, rms, b', h')"
  shows "map Some (present_seams (hasattr e) (map triple_seam ts)) @ map resource_seam (map Remover rms)
           = (if import_requests_stubs e
              then map Some (present_seams (hasattr e) urllib3_patchers_seams) @ [None, None] else [])"
proof (cases "import_requests_stubs e")
  case False
  with assms show ?thesis by (auto simp: requests_adapter_def present_seams_def)
next
  case True
  with assms have "urllib3_patchers e (import_urllib3 e) b h
             (stub_class e requests_VCRRequestsHTTPConnection)
             (stub_class e requests_VCRRequestsHTTPSConnection) = Inr (ts, rms, b', h')"
    by (simp add: requests_adapter_def)
  from urllib3_patchers_Inr[OF this] True show ?thesis by auto
qed

lemma pool_adapter_seams':
  assumes "urllib3_adapter e b h = Inr (ts, rms, b', h')"
  shows "map Some (present_seams (hasattr e) (map triple_seam ts)) @ map resource_seam (map Remover rms)
           = (if import_urllib3 e
              then map Some (present_seams (hasattr e) urllib3_patchers_seams) @ [None, None] else [])"
proof (cases "import_urllib3 e")
  case False
  with assms show ?thesis by (auto simp: urllib3_adapter_def present_seams_def)
next
  case True
  with assms have "urllib3_patchers e True b h
             (stub_class e urllib3_VCRRequestsHTTPConnection)
             (stub_class e urllib3_VCRRequestsHTTPSConnection) = Inr (ts, rms, b', h')"
    by (simp add: urllib3_adapter_def)
  from urllib3_patchers_Inr[OF this] True show ?thesis by auto
qed

lemma adapter_seams_any_session:
  "map triple_seam (tornado_adapter e c) = map triple_seam (tornado_adapter e c')"
  "map triple_seam (aiohttp_adapter e c) = map triple_seam (aiohttp_adapter e c')"
  "map triple_seam (httpx_adapter e c) = map triple_seam (httpx_adapter e c')"
  by (simp_all add: tornado_adapter_def aiohttp_adapter_def httpx_adapter_def triple_seam_def)

text \<open>
  C7. Whenever \<open>build\<close> returns, what it yields is a built-in part followed by the
  patchers of the session's custom triples. The custom patchers are those of the custom
  triples whose attribute exists, in the caller's order. The built-in part has the same
  seams in the same order whatever the session, the cache and the heap are: the adapters
  in the order of the chain (httplib, requests, boto3, urllib3, httplib2, boto, tornado,
  aiohttp, httpx), each pool-aware adapter followed by its two removers.
\<close>

theorem build_order:
  assumes "build e b h = Inr (rs, b', h')"
  shows "\<exists>builtin custom. rs = builtin @ map Patcher custom \<and>
           map seam_of custom
             = present_seams (hasattr e) (map triple_seam (custom_patches (b_cassette b))) \<and>
           (\<forall>cassette. map resource_seam builtin = builtin_seams e cassette)"
proof -
  let ?c = "cassette_id (b_cassette b)"
  from assms obtain t1 r1 b1 h1 t2 r2 b2 h2 where
    req: "requests_adapter e b h = Inr (t1, r1, b1, h1)"
    and u3: "urllib3_adapter e b1 h1 = Inr (t2, r2, b2, h2)"
    and ch: "chain_link e (custom_patches (b_cassette b)) []
         (chain_link e (httpx_adapter e ?c) []
         (chain_link e (aiohttp_adapter e ?c) []
         (chain_link e (tornado_adapter e ?c) []
         (chain_link e (boto_adapter e) []
         (chain_link e (httplib2_adapter e) []
         (chain_link e t2 (map Remover r2)
         (chain_link e (boto3_adapter e) []
         (chain_link e t1 (map Remover r1)
         (chain_link e (httplib_adapter e) []
         (Inr ([], b2, h2))))))))))) = Inr (rs, b', h')"
    by (auto simp: build_def split: sum.splits)
  from chain_link_Inr[OF ch] obtain y9 b9 h9 p10 where
    c9: "chain_link e (httpx_adapter e ?c) []
         (chain_link e (aiohttp_adapter e ?c) []
         (chain_link e (tornado_adapter e ?c) []
         (chain_link e (boto_adapter e) []
         (chain_link e (httplib2_adapter e) []
         (chain_link e t2 (map Remover r2)
         (chain_link e (boto3_adapter e) []
         (chain_link e t1 (map Remover r1)
         (chain_link e (httplib_adapter e) []
         (Inr ([], b2, h2)))))))))) = Inr (y9, b9, h9)"
    and rs: "rs = y9 @ map Patcher p10"
    and s10: "map seam_of p10 = present_seams (hasattr e) (map triple_seam (custom_patches (b_cassette b)))"
    by auto
  from chain_link_Inr[OF c9] obtain y8 b8 h8 p9 where
    c8: "chain_link e (aiohttp_adapter e ?c) []
         (chain_link e (tornado_adapter e ?c) []
         (chain_link e (boto_adapter e) []
         (chain_link e (httplib2_adapter e) []
         (chain_link e t2 (map Remover r2)
         (chain_link e (boto3_adapter e) []
         (chain_link e t1 (map Remover r1)
         (chain_link e (httplib_adapter e) []
         (Inr ([], b2, h2))))))))) = Inr (y8, b8, h8)"
    and y9: "y9 = y8 @ map Patcher p9"
    and s9: "map seam_of p9 = present_seams (hasattr e) (map triple_seam (httpx_adapter e ?c))"
    by auto
  from chain_link_Inr[OF c8] obtain y7 b7 h7 p8 where
    c7: "chain_link e (tornado_adapter e ?c) []
         (chain_link e (boto_adapter e) []
         (chain_link e (httplib2_adapter e) []
         (chain_link e t2 (map Remover r2)
         (chain_link e (boto3_adapter e) []
         (chain_link e t1 (map Remover r1)
         (chain_link e (httplib_adapter e) []
         (Inr ([], b2, h2)))))))) = Inr (y7, b7, h7)"
    and y8: "y8 = y7 @ map Patcher p8"
    and s8: "map seam_of p8 = present_seams (hasattr e) (map triple_seam (aiohttp_adapter e ?c))"
    by auto
  from chain_link_Inr[OF c7] obtain y6 b6 h6 p7 where
    c6: "chain_link e (boto_adapter e) []
         (chain_link e (httplib2_adapter e) []
         (chain_link e t2 (map Remover r2)
         (chain_link e (boto3_adapter e) []
         (chain_link e t1 (map Remover r1)
         (chain_link e (httplib_adapter e) []
         (Inr ([], b2, h2))))))) = Inr (y6, b6, h6)"
    and y7: "y7 = y6 @ map Patcher p7"
    and s7: "map seam_of p7 = present_seams (hasattr e) (map triple_seam (tornado_adapter e ?c))"
    by auto
  from chain_link_Inr[OF c6] obtain y5 b5 h5 p6 where
    c5: "chain_link e (httplib2_adapter e) []
         (chain_link e t2 (map Remover r2)
         (chain_link e (boto3_adapter e) []
         (chain_link e t1 (map Remover r1)
         (chain_link e (httplib_adapter e) []
         (Inr ([], b2, h2)))))) = Inr (y5, b5, h5)"
    and y6: "y6 = y5 @ map Patcher p6"
    and s6: "map seam_of p6 = present_seams (hasattr e) (map triple_seam (boto_adapter e))"
    by auto
  from chain_link_Inr[OF c5] obtain y4 b4 h4 p5 where
    c4: "chain_link e t2 (map Remover r2)
         (chain_link e (boto3_adapter e) []
         (chain_link e t1 (map Remover r1)
         (chain_link e (httplib_adapter e) []
         (Inr ([], b2, h2))))) = Inr (y4, b4, h4)"
    and y5: "y5 = y4 @ map Patcher p5"
    and s5: "map seam_of p5 = present_seams (hasattr e) (map triple_seam (httplib2_adapter e))"
    by auto
  from chain_link_Inr[OF c4] obtain y3 b3 h3 p4 where
    c3: "chain_link e (boto3_adapter e) []
         (chain_link e t1 (map Remover r1)
         (chain_link e (httplib_adapter e) []
         (Inr ([], b2, h2)))) = Inr (y3, b3, h3)"
    and y4: "y4 = y3 @ map Patcher p4 @ map Remover r2"
    and s4: "map seam_of p4 = present_seams (hasattr e) (map triple_seam t2)"
    by auto
  from chain_link_Inr[OF c3] obtain y2 b2' h2' p3 where
    c2: "chain_link e t1 (map Remover r1)
         (chain_link e (httplib_adapter e) []
         (Inr ([], b2, h2))) = Inr (y2, b2', h2')"
    and y3: "y3 = y2 @ map Patcher p3"
    and s3: "map seam_of p3 = present_seams (hasattr e) (map triple_seam (boto3_adapter e))"
    by auto
  from chain_link_Inr[OF c2] obtain y1 b1' h1' p2 where
    c1: "chain_link e (httplib_adapter e) [] (Inr ([], b2, h2)) = Inr (y1, b1', h1')"
    and y2: "y2 = y1 @ map Patcher p2 @ map Remover r1"
    and s2: "map seam_of p2 = present_seams (hasattr e) (map triple_seam t1)"
    by auto
  from chain_link_Inr[OF c1] obtain p1 where
    y1: "y1 = map Patcher p1"
    and s1: "map seam_of p1 = present_seams (hasattr e) (map triple_seam (httplib_adapter e))"
    by auto
  have q1: "map Some (present_seams (hasattr e) (map triple_seam t1)) @
              map resource_seam (map Remover r1) @ rest
            = (if import_requests_stubs e
               then map Some (present_seams (hasattr e) urllib3_patchers_seams) @ [None, None]
               else []) @ rest" for rest
    using pool_adapter_seams[OF req] by (simp only: append_assoc[symmetric])
  have q2: "map Some (present_seams (hasattr e) (map triple_seam t2)) @
              map resource_seam (map Remover r2) @ rest
            = (if import_urllib3 e
               then map Some (present_seams (hasattr e) urllib3_patchers_seams) @ [None, None]
               else []) @ rest" for rest
    using pool_adapter_seams'[OF u3] by (simp only: append_assoc[symmetric])
  have "map resource_seam y9 = builtin_seams e cassette" for cassette
    unfolding y9 y8 y7 y6 y5 y4 y3 y2 y1 builtin_seams_def
    by (simp only: map_append resource_seam_Patcher s1 s2 s3 s4 s5 s6 s7 s8 s9 append_assoc
        q1 q2 adapter_seams_any_session[of e ?c cassette])
  with rs s10 show ?thesis by blast
qed

lemma ex_build_patchers:
  "build_patchers_from_mock_triples ex_hasattr (builder_init ex_cassette_custom)
       [ex_stub, ex_stub_https] (httplib_adapter ex_env)
     = Inr ([\<lparr>p_target = httplib, p_attribute = ''HTTPConnection'', p_new = Ref 2\<rparr>,
             \<lparr>p_target = httplib, p_attribute = ''HTTPSConnection'', p_new = Ref 3\<rparr>],
            \<lparr>b_cassette = ex_cassette_custom, class_to_cassette_subclass = [0 \<mapsto> 2, 1 \<mapsto> 3]\<rparr>,
            [ex_stub, ex_stub_https, ex_substitute, ex_substitute_https])"
  by (simp add: httplib_adapter_def ex_env_def build_patcher_def get_cassette_subclass_def
      build_cassette_subclass_def alloc_def class_at_def cassette_attr_def builder_init_def
      ex_hasattr_def ex_stub_def ex_stub_https_def ex_substitute_def ex_substitute_https_def
      ex_cassette_custom_def numeral_2_eq_2 numeral_3_eq_3)

lemma ex_build_custom:
  "build_patchers_from_mock_triples ex_hasattr
       \<lparr>b_cassette = ex_cassette_custom, class_to_cassette_subclass = [0 \<mapsto> 2, 1 \<mapsto> 3]\<rparr>
       [ex_stub, ex_stub_https, ex_substitute, ex_substitute_https]
       (custom_patches ex_cassette_custom)
     = Inr ([\<lparr>p_target = httplib, p_attribute = ''HTTPSConnection'', p_new = Ref 2\<rparr>,
             \<lparr>p_target = httplib, p_attribute = ''HTTPConnection'', p_new = Ref 3\<rparr>],
            \<lparr>b_cassette = ex_cassette_custom, class_to_cassette_subclass = [0 \<mapsto> 2, 1 \<mapsto> 3]\<rparr>,
            [ex_stub, ex_stub_https, ex_substitute, ex_substitute_https])"
  by (simp add: build_patcher_def get_cassette_subclass_def cassette_attr_def
      ex_hasattr_def ex_stub_def ex_stub_https_def ex_cassette_custom_def)

lemma ex_build:
  "build ex_env (builder_init ex_cassette_custom) [ex_stub, ex_stub_https]
     = Inr ([Patcher \<lparr>p_target = httplib, p_attribute = ''HTTPConnection'', p_new = Ref 2\<rparr>,
             Patcher \<lparr>p_target = httplib, p_attribute = ''HTTPSConnection'', p_new = Ref 3\<rparr>,
             Patcher \<lparr>p_target = aiohttp_ClientSession, p_attribute = ''_request'',
                      p_new = Func ''vcr_request(cassette, _AiohttpClientSessionRequest)'' 1\<rparr>,
             Patcher \<lparr>p_target = httplib, p_attribute = ''HTTPSConnection'', p_new = Ref 2\<rparr>,
             Patcher \<lparr>p_target = httplib, p_attribute = ''HTTPConnection'', p_new = Ref 3\<rparr>],
            \<lparr>b_cassette = ex_cassette_custom, class_to_cassette_subclass = [0 \<mapsto> 2, 1 \<mapsto> 3]\<rparr>,
            [ex_stub, ex_stub_https, ex_substitute, ex_substitute_https])"
proof -
  have imp: "requests_adapter ex_env b h = Inr ([], [], b, h)"
    "urllib3_adapter ex_env b h = Inr ([], [], b, h)"
    "boto3_adapter ex_env = []" "httplib2_adapter ex_env = []" "boto_adapter ex_env = []"
    "tornado_adapter ex_env c = []" "httpx_adapter ex_env c = []"
    "aiohttp_adapter ex_env c = [(aiohttp_ClientSession, ''_request'',
               Func ''vcr_request(cassette, _AiohttpClientSessionRequest)'' c)]"
    "hasattr ex_env = ex_hasattr"
    for b h c
    by (simp_all add: ex_env_def requests_adapter_def urllib3_adapter_def boto3_adapter_def
        httplib2_adapter_def boto_adapter_def tornado_adapter_def httpx_adapter_def
        aiohttp_adapter_def)
  have nil: "chain_link ex_env [] [] (Inr s) = Inr s" for s
    by (cases s) (simp add: chain_link_def)
  have aio: "build_patchers_from_mock_triples ex_hasattr b h
        [(aiohttp_ClientSession, ''_request'', Func f c)]
      = Inr ([\<lparr>p_target = aiohttp_ClientSession, p_attribute = ''_request'', p_new = Func f c\<rparr>], b, h)"
    for b h f c
    by (simp add: build_patcher_def ex_hasattr_def)
  have cid: "cassette_id ex_cassette_custom = 1" "b_cassette (builder_init ex_cassette_custom) = ex_cassette_custom"
    by (simp_all add: ex_cassette_custom_def builder_init_def)
  show ?thesis
    by (simp only: build_def imp sum.case prod.case cid chain_link_def ex_build_patchers
        ex_build_custom aio build_patchers_from_mock_triples.simps(1) list.map append.simps
        append_Nil2)
qed

theorem build_order_witness:
  "build ex_env (builder_init ex_cassette_custom) [ex_stub, ex_stub_https]
     = Inr ([Patcher \<lparr>p_target = httplib, p_attribute = ''HTTPConnection'', p_new = Ref 2\<rparr>,
             Patcher \<lparr>p_target = httplib, p_attribute = ''HTTPSConnection'', p_new = Ref 3\<rparr>,
             Patcher \<lparr>p_target = aiohttp_ClientSession, p_attribute = ''_request'',
                      p_new = Func ''vcr_request(cassette, _AiohttpClientSessionRequest)'' 1\<rparr>,
             Patcher \<lparr>p_target = httplib, p_attribute = ''HTTPSConnection'', p_new = Ref 2\<rparr>,
             Patcher \<lparr>p_target = httplib, p_attribute = ''HTTPConnection'', p_new = Ref 3\<rparr>],
            \<lparr>b_cassette = ex_cassette_custom, class_to_cassette_subclass = [0 \<mapsto> 2, 1 \<mapsto> 3]\<rparr>,
            [ex_stub, ex_stub_https, ex_substitute, ex_substitute_https]) \<and>
   builtin_seams ex_env 1
     = [Some (httplib, ''HTTPConnection''), Some (httplib, ''HTTPSConnection''),
        Some (aiohttp_ClientSession, ''_request'')] \<and>
   present_seams (hasattr ex_env) (map triple_seam (custom_patches ex_cassette_custom))
     = [(httplib, ''HTTPSConnection''), (httplib, ''HTTPConnection'')]"
proof -
  have seams: "builtin_seams ex_env 1
     = [Some (httplib, ''HTTPConnection''), Some (httplib, ''HTTPSConnection''),
        Some (aiohttp_ClientSession, ''_request'')]"
    by (simp add: builtin_seams_def present_seams_def triple_seam_def ex_env_def ex_hasattr_def
        httplib_adapter_def boto3_adapter_def httplib2_adapter_def boto_adapter_def
        tornado_adapter_def aiohttp_adapter_def httpx_adapter_def)
  have custom: "present_seams (hasattr ex_env) (map triple_seam (custom_patches ex_cassette_custom))
     = [(httplib, ''HTTPSConnection''), (httplib, ''HTTPConnection'')]"
    by (simp add: present_seams_def triple_seam_def ex_env_def ex_hasattr_def ex_cassette_custom_def)
  show ?thesis
    using ex_build seams custom build_order [OF ex_build]
    by simp
qed

section \<open>Sessions and force\_reset\<close>

lemma exit_enter_patcher:
  "exit_handle (fst (enter_patcher p s)) (snd (enter_patcher p s)) = s"
  by (simp add: enter_patcher_def exit_handle_def)

lemma exit_all_enter_all:
  "exit_all (fst (enter_all ps stack s)) (snd (enter_all ps stack s)) = exit_all stack s"
proof (induction ps arbitrary: stack s)
  case Nil
  then show ?case by simp
next
  case (Cons p ps)
  obtain entered s' where e: "enter_patcher p s = (entered, s')" by (cases "enter_patcher p s") auto
  with exit_enter_patcher[of p s] have "exit_handle entered s' = s" by simp
  with Cons.IH[of "entered # stack" s'] e show ?case by simp
qed

lemma run_unwind:
  "run events active s = Some (active', s') \<Longrightarrow> unwind active' s' = unwind active s"
proof (induction events active s rule: run.induct)
  case (1 active s)
  then show ?case by simp
next
  case (2 ps events active s)
  obtain stack s1 where e: "enter_all ps [] s = (stack, s1)" by (cases "enter_all ps [] s") auto
  with exit_all_enter_all[of ps "[]" s] have "exit_all stack s1 = s" by simp
  with 2 e show ?case by simp
next
  case (3 events s)
  then show ?case by simp
next
  case (4 events stack active s)
  then show ?case by simp
qed

text \<open>
  C8. Any sequence of session entries and exits in strict LIFO order that starts and
  ends with no session active leaves every seam with the value it had at the start.
  With two nested sessions on the same seam, after the inner one has ended the seam holds
  the outer session's replacement, and after the outer one has ended too, every seam
  holds what it held before.
\<close>

theorem lifo_sessions_restore:
  "(run events [] s = Some ([], s') \<longrightarrow> s' = s) \<and>
   (seam_of pA = x \<and> seam_of pB = x \<longrightarrow>
      (\<exists>active s1. run [Enter [pA], Enter [pB], Exit] [] s = Some (active, s1) \<and>
                   s1 x = p_new pA) \<and>
      run [Enter [pA], Enter [pB], Exit, Exit] [] s = Some ([], s))"
proof (intro conjI impI)
  assume "run events [] s = Some ([], s')"
  from run_unwind[OF this] show "s' = s" by simp
next
  assume a: "seam_of pA = x \<and> seam_of pB = x"
  then show "\<exists>active s1. run [Enter [pA], Enter [pB], Exit] [] s = Some (active, s1) \<and>
                   s1 x = p_new pA"
    by (simp add: enter_patcher_def exit_handle_def)
  from a show "run [Enter [pA], Enter [pB], Exit, Exit] [] s = Some ([], s)"
    by (simp add: enter_patcher_def exit_handle_def)
qed

theorem lifo_sessions_restore_witness:
  "seam_of ex_patcher_outer = (httplib, ''HTTPConnection'') \<and>
   seam_of ex_patcher_inner = (httplib, ''HTTPConnection'') \<and>
   run [Enter [ex_patcher_outer], Enter [ex_patcher_inner], Exit, Exit] [] ex_pristine
     = Some ([], ex_pristine) \<and>
   (\<exists>active s1. run [Enter [ex_patcher_outer], Enter [ex_patcher_inner], Exit] [] ex_pristine
                    = Some (active, s1) \<and>
                 s1 (httplib, ''HTTPConnection'') = Ref 2) \<and>
   ex_pristine (httplib, ''HTTPConnection'') = Saved ''pristine''"
proof -
  have h: "seam_of ex_patcher_outer = (httplib, ''HTTPConnection'') \<and>
           seam_of ex_patcher_inner = (httplib, ''HTTPConnection'')"
    by (simp add: seam_of_def ex_patcher_outer_def ex_patcher_inner_def)
  have r: "run [Enter [ex_patcher_outer], Enter [ex_patcher_inner], Exit, Exit] [] ex_pristine
     = Some ([], ex_pristine)"
    using h by (simp add: enter_patcher_def exit_handle_def)
  show ?thesis
    using h r
      lifo_sessions_restore [where events = "[Enter [ex_patcher_outer], Enter [ex_patcher_inner], Exit, Exit]"
        and s = ex_pristine and s' = ex_pristine and pA = ex_patcher_outer and pB = ex_patcher_inner
        and x = "(httplib, ''HTTPConnection'')"]
    by (simp add: ex_patcher_outer_def ex_pristine_def)
qed

lemma enter_all_seams:
  "\<forall>p \<in> set ps. p_new p = g (seam_of p) \<Longrightarrow> enter_all ps stack s = (stack', s') \<Longrightarrow>
   (\<forall>p \<in> set ps. s' (seam_of p) = p_new p) \<and> (\<forall>x. x \<notin> seam_of ` set ps \<longrightarrow> s' x = s x)"
proof (induction ps arbitrary: stack s)
  case Nil
  then show ?case by simp
next
  case (Cons p ps)
  let ?s1 = "s(seam_of p := p_new p)"
  from Cons.prems have g: "\<forall>q \<in> set ps. p_new q = g (seam_of q)" and gp: "p_new p = g (seam_of p)"
    and r: "enter_all ps (\<lparr>h_seam = seam_of p, h_original = s (seam_of p)\<rparr> # stack) ?s1 = (stack', s')"
    by (auto simp: enter_patcher_def)
  from Cons.IH[OF g r] have
    a: "\<forall>q \<in> set ps. s' (seam_of q) = p_new q" and b: "\<forall>x. x \<notin> seam_of ` set ps \<longrightarrow> s' x = ?s1 x"
    by auto
  have "s' (seam_of p) = p_new p"
  proof (cases "seam_of p \<in> seam_of ` set ps")
    case True
    then obtain q where q: "q \<in> set ps" "seam_of q = seam_of p" by auto
    with a g gp show ?thesis by metis
  next
    case False
    from b[rule_format, OF False] show ?thesis by simp
  qed
  with a b show ?case by auto
qed

lemma ball_if_else: "(\<forall>p \<in> set xs. P p) \<Longrightarrow> \<forall>p \<in> set (if c then [] else xs). P p"
  by simp

lemma ball_if_then: "(\<forall>p \<in> set xs. P p) \<Longrightarrow> \<forall>p \<in> set (if c then xs else []). P p"
  by simp

lemma ball_append: "(\<forall>p \<in> set xs. P p) \<Longrightarrow> (\<forall>p \<in> set ys. P p) \<Longrightarrow> \<forall>p \<in> set (xs @ ys). P p"
  by auto

lemma reset_patchers_saved:
  "\<exists>g. \<forall>p \<in> set (reset_patchers e). p_new p = g (seam_of p)"
proof -
  define g :: "seam \<Rightarrow> pyval" where "g = (\<lambda>x.
     if x = (httplib, ''HTTPConnection'') then Saved ''_HTTPConnection''
     else if x = (httplib, ''HTTPSConnection'') then Saved ''_HTTPSConnection''
     else if x = (urllib3_connection, ''VerifiedHTTPSConnection'') then Saved ''_VerifiedHTTPSConnection''
     else if x = (urllib3_connection, ''HTTPConnection'') then Saved ''_connHTTPConnection''
     else if x = (urllib3_connection, ''HTTPSConnection'') then Saved ''_connHTTPSConnection''
     else if x = (HTTPConnectionPool, ''ConnectionCls'') then Saved ''_connHTTPConnection''
     else if x = (HTTPSConnectionPool, ''ConnectionCls'') then Saved ''_connHTTPSConnection''
     else if x = (AWSHTTPConnectionPool, ''ConnectionCls'') then Saved ''_cpoolBoto3HTTPConnection''
     else if x = (AWSHTTPSConnectionPool, ''ConnectionCls'') then Saved ''_cpoolBoto3HTTPSConnection''
     else if x = (botocore_awsrequest, ''AWSHTTPSConnection'') then Saved ''_cpoolBoto3HTTPSConnection''
     else if x = (httplib2, ''HTTPConnectionWithTimeout'') then Saved ''_HTTPConnectionWithTimeout''
     else if x = (httplib2, ''HTTPSConnectionWithTimeout'') then Saved ''_HTTPSConnectionWithTimeout''
     else if x = (httplib2, ''SCHEME_TO_CONNECTION'') then Saved ''_SCHEME_TO_CONNECTION''
     else if x = (boto_https_connection, ''CertValidatingHTTPSConnection'') then Saved ''_CertValidatingHTTPSConnection''
     else if x = (SimpleAsyncHTTPClient, ''fetch_impl'') then Saved ''_SimpleAsyncHTTPClient_fetch_impl''
     else Saved ''_CurlAsyncHTTPClient_fetch_impl'')"
  have "\<forall>p \<in> set (reset_patchers e). p_new p = g (seam_of p)"
    unfolding reset_patchers_def
    apply (intro ball_append ball_if_else ball_if_then)
    apply (simp_all add: reset_patcher_def seam_of_def g_def)
    done
  then show ?thesis by blast
qed

lemma reset_patchers_not_pool_primitives:
  "\<forall>p \<in> set (reset_patchers e).
     p_attribute p \<noteq> ''is_connection_dropped'' \<and> p_attribute p \<noteq> ''_get_conn'' \<and>
     p_attribute p \<noteq> ''_new_conn''"
  unfolding reset_patchers_def
  apply (intro ball_append ball_if_else ball_if_then)
  apply (simp_all add: reset_patcher_def)
  done

lemma reset_patchers_httplib:
  "\<exists>rest. reset_patchers e =
      [reset_patcher httplib ''HTTPConnection'' ''_HTTPConnection'',
       reset_patcher httplib ''HTTPSConnection'' ''_HTTPSConnection''] @ rest"
  unfolding reset_patchers_def by (rule exI) (rule refl)

lemma reset_patchers_members:
  "reset_patcher httplib ''HTTPConnection'' ''_HTTPConnection'' \<in> set (reset_patchers e)"
  "reset_patcher httplib ''HTTPSConnection'' ''_HTTPSConnection'' \<in> set (reset_patchers e)"
  "import_urllib3 e \<Longrightarrow>
     reset_patcher urllib3_connection ''VerifiedHTTPSConnection'' ''_VerifiedHTTPSConnection''
       \<in> set (reset_patchers e)"
  "import_urllib3 e \<Longrightarrow>
     reset_patcher urllib3_connection ''HTTPConnection'' ''_connHTTPConnection''
       \<in> set (reset_patchers e)"
  "import_urllib3 e \<Longrightarrow>
     reset_patcher urllib3_connection ''HTTPSConnection'' ''_connHTTPSConnection''
       \<in> set (reset_patchers e)"
  "import_urllib3 e \<Longrightarrow> hasattr e HTTPConnectionPool ''ConnectionCls'' \<Longrightarrow>
     reset_patcher HTTPConnectionPool ''ConnectionCls'' ''_connHTTPConnection''
       \<in> set (reset_patchers e)"
  "import_urllib3 e \<Longrightarrow> hasattr e HTTPConnectionPool ''ConnectionCls'' \<Longrightarrow>
     reset_patcher HTTPSConnectionPool ''ConnectionCls'' ''_connHTTPSConnection''
       \<in> set (reset_patchers e)"
  "import_botocore_awsrequest e \<Longrightarrow> hasattr e AWSHTTPConnectionPool ''ConnectionCls'' \<Longrightarrow>
     reset_patcher AWSHTTPConnectionPool ''ConnectionCls'' ''_cpoolBoto3HTTPConnection''
       \<in> set (reset_patchers e)"
  "import_botocore_awsrequest e \<Longrightarrow> hasattr e AWSHTTPConnectionPool ''ConnectionCls'' \<Longrightarrow>
     reset_patcher AWSHTTPSConnectionPool ''ConnectionCls'' ''_cpoolBoto3HTTPSConnection''
       \<in> set (reset_patchers e)"
  "import_botocore_awsrequest e \<Longrightarrow> hasattr e botocore_awsrequest ''AWSHTTPSConnection'' \<Longrightarrow>
     reset_patcher botocore_awsrequest ''AWSHTTPSConnection'' ''_cpoolBoto3HTTPSConnection''
       \<in> set (reset_patchers e)"
  "import_httplib2 e \<Longrightarrow>
     reset_patcher httplib2 ''HTTPConnectionWithTimeout'' ''_HTTPConnectionWithTimeout''
       \<in> set (reset_patchers e)"
  "import_httplib2 e \<Longrightarrow>
     reset_patcher httplib2 ''HTTPSConnectionWithTimeout'' ''_HTTPSConnectionWithTimeout''
       \<in> set (reset_patchers e)"
  "import_httplib2 e \<Longrightarrow>
     reset_patcher httplib2 ''SCHEME_TO_CONNECTION'' ''_SCHEME_TO_CONNECTION''
       \<in> set (reset_patchers e)"
  "import_boto_https_connection e \<Longrightarrow>
     reset_patcher boto_https_connection ''CertValidatingHTTPSConnection''
       ''_CertValidatingHTTPSConnection'' \<in> set (reset_patchers e)"
  "import_tornado_simple_httpclient e \<Longrightarrow>
     reset_patcher SimpleAsyncHTTPClient ''fetch_impl'' ''_SimpleAsyncHTTPClient_fetch_impl''
       \<in> set (reset_patchers e)"
  "import_tornado_curl_httpclient e \<Longrightarrow>
     reset_patcher CurlAsyncHTTPClient ''fetch_impl'' ''_CurlAsyncHTTPClient_fetch_impl''
       \<in> set (reset_patchers e)"
  by (simp_all add: reset_patchers_def)

lemma listed_value:
  "\<forall>p \<in> set ps. s' (seam_of p) = p_new p \<Longrightarrow> reset_patcher t a v \<in> set ps \<Longrightarrow>
   s' (t, a) = Saved v"
  by (force simp: reset_patcher_def seam_of_def)

text \<open>
  C9, as amended. Entering \<open>force_reset\<close> sets each seam that \<open>reset_patchers\<close>
  lists to the original saved at load time, whatever the seam holds: the two connection
  classes of \<open>http.client\<close> always; with urllib3, its three connection classes and, when
  the pool class has it, \<open>ConnectionCls\<close> of the two pool classes; with botocore,
  \<open>ConnectionCls\<close> of its two pool classes and \<open>AWSHTTPSConnection\<close>, each when it is
  there; with httplib2, its two connection classes and \<open>SCHEME_TO_CONNECTION\<close>; with
  boto, \<open>CertValidatingHTTPSConnection\<close>; with tornado, \<open>fetch_impl\<close> of each client
  that imports. The pool seams \<open>_get_conn\<close>, \<open>_new_conn\<close> and
  \<open>is_connection_dropped\<close>, for which no original is saved, keep the value they hold.
  Leaving \<open>force_reset\<close> puts every seam back to what it held on entry.
\<close>

theorem force_reset_restores_listed:
  assumes "force_reset_enter e s = (stack, s')"
  shows "s' (httplib, ''HTTPConnection'') = Saved ''_HTTPConnection'' \<and>
         s' (httplib, ''HTTPSConnection'') = Saved ''_HTTPSConnection'' \<and>
         (import_urllib3 e \<longrightarrow>
            s' (urllib3_connection, ''VerifiedHTTPSConnection'') = Saved ''_VerifiedHTTPSConnection'' \<and>
            s' (urllib3_connection, ''HTTPConnection'') = Saved ''_connHTTPConnection'' \<and>
            s' (urllib3_connection, ''HTTPSConnection'') = Saved ''_connHTTPSConnection'' \<and>
            (hasattr e HTTPConnectionPool ''ConnectionCls'' \<longrightarrow>
               s' (HTTPConnectionPool, ''ConnectionCls'') = Saved ''_connHTTPConnection'' \<and>
               s' (HTTPSConnectionPool, ''ConnectionCls'') = Saved ''_connHTTPSConnection'')) \<and>
         (import_botocore_awsrequest e \<longrightarrow>
            (hasattr e AWSHTTPConnectionPool ''ConnectionCls'' \<longrightarrow>
               s' (AWSHTTPConnectionPool, ''ConnectionCls'') = Saved ''_cpoolBoto3HTTPConnection'' \<and>
               s' (AWSHTTPSConnectionPool, ''ConnectionCls'') = Saved ''_cpoolBoto3HTTPSConnection'') \<and>
            (hasattr e botocore_awsrequest ''AWSHTTPSConnection'' \<longrightarrow>
               s' (botocore_awsrequest, ''AWSHTTPSConnection'') = Saved ''_cpoolBoto3HTTPSConnection'')) \<and>
         (import_httplib2 e \<longrightarrow>
            s' (httplib2, ''HTTPConnectionWithTimeout'') = Saved ''_HTTPConnectionWithTimeout'' \<and>
            s' (httplib2, ''HTTPSConnectionWithTimeout'') = Saved ''_HTTPSConnectionWithTimeout'' \<and>
            s' (httplib2, ''SCHEME_TO_CONNECTION'') = Saved ''_SCHEME_TO_CONNECTION'') \<and>
         (import_boto_https_connection e \<longrightarrow>
            s' (boto_https_connection, ''CertValidatingHTTPSConnection'')
              = Saved ''_CertValidatingHTTPSConnection'') \<and>
         (import_tornado_simple_httpclient e \<longrightarrow>
            s' (SimpleAsyncHTTPClient, ''fetch_impl'') = Saved ''_SimpleAsyncHTTPClient_fetch_impl'') \<and>
         (import_tornado_curl_httpclient e \<longrightarrow>
            s' (CurlAsyncHTTPClient, ''fetch_impl'') = Saved ''_CurlAsyncHTTPClient_fetch_impl'') \<and>
         s' (urllib3_connectionpool, ''is_connection_dropped'')
           = s (urllib3_connectionpool, ''is_connection_dropped'') \<and>
         s' (HTTPConnectionPool, ''_get_conn'') = s (HTTPConnectionPool, ''_get_conn'') \<and>
         s' (HTTPSConnectionPool, ''_get_conn'') = s (HTTPSConnectionPool, ''_get_conn'') \<and>
         s' (HTTPConnectionPool, ''_new_conn'') = s (HTTPConnectionPool, ''_new_conn'') \<and>
         s' (HTTPSConnectionPool, ''_new_conn'') = s (HTTPSConnectionPool, ''_new_conn'') \<and>
         force_reset_exit stack s' = s"
proof -
  from assms have e: "enter_all (reset_patchers e) [] s = (stack, s')"
    by (simp add: force_reset_enter_def)
  from reset_patchers_saved[of e] obtain g where
    g: "\<forall>p \<in> set (reset_patchers e). p_new p = g (seam_of p)" by blast
  note en = enter_all_seams[OF g e]
  then have listed: "\<forall>p \<in> set (reset_patchers e). s' (seam_of p) = p_new p"
    and other: "\<And>x. x \<notin> seam_of ` set (reset_patchers e) \<Longrightarrow> s' x = s x"
    by auto
  note val = reset_patchers_members[of e, THEN listed_value[OF listed]]
  have out: "(urllib3_connectionpool, ''is_connection_dropped'') \<notin> seam_of ` set (reset_patchers e)"
    "(HTTPConnectionPool, ''_get_conn'') \<notin> seam_of ` set (reset_patchers e)"
    "(HTTPSConnectionPool, ''_get_conn'') \<notin> seam_of ` set (reset_patchers e)"
    "(HTTPConnectionPool, ''_new_conn'') \<notin> seam_of ` set (reset_patchers e)"
    "(HTTPSConnectionPool, ''_new_conn'') \<notin> seam_of ` set (reset_patchers e)"
    using reset_patchers_not_pool_primitives[of e] by (auto simp: seam_of_def)
  have restored: "force_reset_exit stack s' = s"
    using exit_all_enter_all[of "reset_patchers e" "[]" s] e
    by (simp add: force_reset_exit_def)
  show ?thesis
    by (intro conjI impI val other[OF out(1)] other[OF out(2)] other[OF out(3)]
        other[OF out(4)] other[OF out(5)] restored) assumption+
qed

text \<open>
  C9, as stated, fails: with urllib3 there, \<open>_new_conn\<close> of the pool class is a seam the
  urllib3 adapter patches, and after \<open>force_reset\<close> is entered it still holds the
  session's \<open>patched_new_conn\<close>.
\<close>

theorem force_reset_leaves_new_conn:
  "snd (force_reset_enter ex_env_urllib3 ex_seams) (HTTPConnectionPool, ''_new_conn'')
     = Func ''patched_new_conn(HTTPConnectionPool)'' 1 \<and>
   ex_seams (HTTPConnectionPool, ''_new_conn'')
     = Func ''patched_new_conn(HTTPConnectionPool)'' 1 \<and>
   (HTTPConnectionPool, ''_new_conn'') \<in> set urllib3_patchers_seams \<and>
   import_urllib3 ex_env_urllib3"
proof -
  have h: "force_reset_enter ex_env_urllib3 ex_seams
      = (fst (force_reset_enter ex_env_urllib3 ex_seams), snd (force_reset_enter ex_env_urllib3 ex_seams))"
    by simp
  have e: "enter_all (reset_patchers ex_env_urllib3) [] ex_seams
      = (fst (force_reset_enter ex_env_urllib3 ex_seams), snd (force_reset_enter ex_env_urllib3 ex_seams))"
    by (simp add: force_reset_enter_def)
  from reset_patchers_saved[of ex_env_urllib3] obtain g where
    g: "\<forall>p \<in> set (reset_patchers ex_env_urllib3). p_new p = g (seam_of p)" by blast
  have out: "(HTTPConnectionPool, ''_new_conn'') \<notin> seam_of ` set (reset_patchers ex_env_urllib3)"
    using reset_patchers_not_pool_primitives[of ex_env_urllib3] by (auto simp: seam_of_def)
  from enter_all_seams[OF g e] out have
    "snd (force_reset_enter ex_env_urllib3 ex_seams) (HTTPConnectionPool, ''_new_conn'')
       = ex_seams (HTTPConnectionPool, ''_new_conn'')" by blast
  moreover have "ex_seams (HTTPConnectionPool, ''_new_conn'')
     = Func ''patched_new_conn(HTTPConnectionPool)'' 1" by (simp add: ex_seams_def)
  moreover have "(HTTPConnectionPool, ''_new_conn'') \<in> set urllib3_patchers_seams"
    by (simp add: urllib3_patchers_seams_def)
  moreover have "import_urllib3 ex_env_urllib3" by (simp add: ex_env_urllib3_def)
  ultimately show ?thesis by simp
qed

theorem force_reset_restores_listed_witness:
  "snd (force_reset_enter ex_env_urllib3 ex_seams) (httplib, ''HTTPConnection'')
     = Saved ''_HTTPConnection'' \<and>
   snd (force_reset_enter ex_env_urllib3 ex_seams) (HTTPConnectionPool, ''ConnectionCls'')
     = Saved ''_connHTTPConnection'' \<and>
   ex_seams (httplib, ''HTTPConnection'') = Ref 2 \<and>
   import_urllib3 ex_env_urllib3 \<and> hasattr ex_env_urllib3 HTTPConnectionPool ''ConnectionCls'' \<and>
   force_reset_exit (fst (force_reset_enter ex_env_urllib3 ex_seams))
       (snd (force_reset_enter ex_env_urllib3 ex_seams)) = ex_seams"
proof -
  have h: "force_reset_enter ex_env_urllib3 ex_seams
      = (fst (force_reset_enter ex_env_urllib3 ex_seams), snd (force_reset_enter ex_env_urllib3 ex_seams))"
    by simp
  have i: "import_urllib3 ex_env_urllib3" "hasattr ex_env_urllib3 HTTPConnectionPool ''ConnectionCls''"
    by (simp_all add: ex_env_urllib3_def)
  have v: "ex_seams (httplib, ''HTTPConnection'') = Ref 2" by (simp add: ex_seams_def)
  from force_reset_restores_listed [OF h] i v show ?thesis by simp
qed

end
